theory Spec2Isabelle
  imports Main "HOL-Library.Char_ord" "HOL-Library.List_Lexorder"
begin

section \<open>Subdomain reconnaissance: a model of subdomain\_recon.py\<close>

text \<open>
  The script runs external enumeration tools, merges their line-oriented output into a set
  of candidate names, probes every candidate (DNS, then HTTP) and writes four reports.
  Python values are modelled as follows: \<open>str\<close> is \<open>string\<close> (a character is a
  code point below 256), \<open>int\<close> is \<open>int\<close>, \<open>None\<close>-or-value is \<open>option\<close>, a
  \<open>set\<close> of strings is a \<open>string set\<close>, a \<open>dict\<close> is an association list in insertion
  order. Every call that leaves the program (a subprocess, the resolver, the HTTP client, the
  clock, the order in which futures complete) is a field of an environment record.
\<close>

subsection \<open>String operations of the Python runtime\<close>

text \<open>\<open>s.split(sep)\<close> for a one-character separator: never an empty list.\<close>

fun str_split :: "string \<Rightarrow> char \<Rightarrow> string list" where
  "str_split [] sep = [[]]"
| "str_split (c # cs) sep =
     (if c = sep then [] # str_split cs sep
      else (case str_split cs sep of
              [] \<Rightarrow> [[c]]
            | p # ps \<Rightarrow> (c # p) # ps))"

text \<open>\<open>sep.join(parts)\<close>.\<close>

fun str_join :: "string \<Rightarrow> string list \<Rightarrow> string" where
  "str_join sep [] = []"
| "str_join sep [p] = p"
| "str_join sep (p # q # ps) = p @ sep @ str_join sep (q # ps)"

text \<open>
  \<open>xs[i:]\<close>: a negative start counts from the end and is clamped at the beginning; a start
  past the end gives the empty list.
\<close>

definition slice_from :: "'a list \<Rightarrow> int \<Rightarrow> 'a list" where
  "slice_from xs i =
     (let n = int (length xs)
      in if i < 0 then drop (nat (max 0 (n + i))) xs else drop (nat i) xs)"

text \<open>\<open>s.endswith(suffix)\<close> and \<open>needle in s\<close>.\<close>

definition str_endswith :: "string \<Rightarrow> string \<Rightarrow> bool" where
  "str_endswith s suffix =
     (length suffix \<le> length s \<and> drop (length s - length suffix) s = suffix)"

fun str_contains :: "string \<Rightarrow> string \<Rightarrow> bool" where
  "str_contains needle [] = (needle = [])"
| "str_contains needle (c # cs) =
     (take (length needle) (c # cs) = needle \<or> str_contains needle cs)"

text \<open>
  \<open>str.isspace\<close> on one character and the line boundaries of \<open>str.splitlines\<close>, for
  code points below 256.
\<close>

definition isspace :: "char \<Rightarrow> bool" where
  "isspace c = (of_char c \<in> {9::nat, 10, 11, 12, 13, 28, 29, 30, 31, 32, 133, 160})"

definition is_linebreak :: "char \<Rightarrow> bool" where
  "is_linebreak c = (of_char c \<in> {10::nat, 11, 12, 13, 28, 29, 30, 133})"

definition str_strip :: "string \<Rightarrow> string" where
  "str_strip s = rev (dropWhile isspace (rev (dropWhile isspace s)))"

text \<open>
  \<open>s.splitlines()\<close>: the boundaries are dropped, CR LF is one boundary, and a boundary at
  the very end opens no further line.
\<close>

fun str_splitlines :: "string \<Rightarrow> string list" where
  "str_splitlines [] = []"
| "str_splitlines (c # cs) =
     (if c = CHR 0x0D then
        (case cs of
           [] \<Rightarrow> [[]]
         | d # ds \<Rightarrow> if d = CHR 0x0A then [] # str_splitlines ds else [] # str_splitlines cs)
      else if is_linebreak c then [] # str_splitlines cs
      else (case str_splitlines cs of
              [] \<Rightarrow> [[c]]
            | l # ls \<Rightarrow> (c # l) # ls))"

subsection \<open>Level extractor\<close>

text \<open>
  \<open>extract_subdomains_level(subdomains, level)\<close>. The argument list is the order in which
  the \<open>for\<close> loop visits the members of the Python set; \<open>result\<close> is the set being built.
\<close>

fun extract_loop :: "string list \<Rightarrow> int \<Rightarrow> string set \<Rightarrow> string set" where
  "extract_loop [] level result = result"
| "extract_loop (sub # subdomains) level result =
     (let parts = str_split sub (CHR ''.'')
      in if level + 2 \<le> int (length parts)
         then extract_loop subdomains level
                (insert (str_join ''.'' (slice_from parts (- (level + 2)))) result)
         else extract_loop subdomains level result)"

definition extract_subdomains_level :: "string list \<Rightarrow> int \<Rightarrow> string set" where
  "extract_subdomains_level subdomains level = extract_loop subdomains level {}"

text \<open>
  The level extractor in the words of the specification: split every candidate on dots,
  keep the candidates with at least \<open>level + 2\<close> labels, cut each to its last
  \<open>level + 2\<close> labels joined by dots, and collect the results in a set.
\<close>

definition labels :: "string \<Rightarrow> string list" where
  "labels candidate = str_split candidate (CHR ''.'')"

definition last_labels :: "nat \<Rightarrow> string list \<Rightarrow> string list" where
  "last_labels k ls = drop (length ls - k) ls"

definition level_groups_spec :: "string set \<Rightarrow> nat \<Rightarrow> string set" where
  "level_groups_spec candidates level =
     (\<lambda>c. str_join ''.'' (last_labels (level + 2) (labels c)))
       ` Set.filter (\<lambda>c. level + 2 \<le> length (labels c)) candidates"

subsection \<open>The world outside the program\<close>

text \<open>
  An exception of class \<open>Exception\<close> (or a subclass), with its message. The handlers of
  the source are all \<open>except Exception\<close>; an interrupt of the interpreter
  (\<open>KeyboardInterrupt\<close>), which they let pass, is not part of the model.
\<close>

datatype exn = Exception string

text \<open>What \<open>subprocess.run\<close> returns when it returns.\<close>

record completed_process =
  returncode :: int
  stdout :: string
  stderr :: string

text \<open>
  Each field answers one kind of call: \<open>subprocess.run(cmd, shell=True, timeout=t)\<close>;
  \<open>socket.gethostbyname(name)\<close>; \<open>socket.gethostbyname_ex(name)\<close> (host name, aliases,
  addresses); the code on the status line of the final response to a GET of a URL with a
  timeout, redirects followed, or the exception raised on the way; the error, if any, with
  which the file system refuses to create a directory; the error, if any, raised while a
  file is opened for writing, written and closed; the order in which a \<open>for\<close> loop
  visits a set; the order in which \<open>as_completed\<close> yields the futures submitted in a given
  order (each future stands for its candidate); and
  \<open>datetime.datetime.now().strftime("%Y%m%d_%H%M%S")\<close>. A call either raises or returns.
\<close>

record env =
  subprocess_run :: "string \<Rightarrow> int \<Rightarrow> exn + completed_process"
  gethostbyname :: "string \<Rightarrow> exn + string"
  gethostbyname_ex :: "string \<Rightarrow> exn + string \<times> string list \<times> string list"
  http_answer :: "string \<Rightarrow> int \<Rightarrow> exn + int"
  makedirs_error :: "string \<Rightarrow> exn option"
  write_error :: "string \<Rightarrow> exn option"
  set_iter :: "string set \<Rightarrow> string list"
  as_completed :: "string list \<Rightarrow> string list"
  now_strftime :: string

text \<open>
  The runtime visits every member of a set once, and every submitted future completes once.
\<close>

definition scheduler_ok :: "env \<Rightarrow> string set \<Rightarrow> bool" where
  "scheduler_ok env S =
     (set (set_iter env S) = S \<and> distinct (set_iter env S) \<and>
      set (as_completed env (set_iter env S)) = S \<and>
      distinct (as_completed env (set_iter env S)))"

text \<open>\<open>try: body except Exception as e: handler(e)\<close>.\<close>

definition try_except :: "exn + 'a \<Rightarrow> (exn \<Rightarrow> exn + 'a) \<Rightarrow> exn + 'a" where
  "try_except body handler = (case body of Inl e \<Rightarrow> handler e | Inr v \<Rightarrow> Inr v)"

subsection \<open>Logging\<close>

text \<open>
  A log record is its level and its message; a message is kept as the values interpolated
  into the format string of the source.
\<close>

datatype log_level = INFO | WARNING

datatype log_message =
    Herramienta_no_disponible string exn
  | Retorno_codigo string int string
  | Error_ejecutando string exn
  | Ejecutando string
  | Subdominios_encontrados string nat
  | No_disponible_saltando string
  | Total_sin_filtrar nat
  | Total_unicos nat
  | Reportes_generados string
  | Resumen nat nat nat nat

type_synonym log_record = "log_level \<times> log_message"

subsection \<open>Availability prober and external tool runner\<close>

text \<open>\<open>check_tool(cmd, name)\<close>: the value returned and the records logged.\<close>

definition check_tool :: "env \<Rightarrow> string \<Rightarrow> string \<Rightarrow> exn + bool \<times> log_record list" where
  "check_tool env cmd name =
     try_except
       (case subprocess_run env cmd 10 of
          Inl e \<Rightarrow> Inl e
        | Inr result \<Rightarrow> Inr (True, []))
       (\<lambda>e. Inr (False, [(WARNING, Herramienta_no_disponible name e)]))"

text \<open>\<open>run_command(cmd, name, timeout=300)\<close>: the value returned and the records logged.\<close>

definition run_command ::
  "env \<Rightarrow> string \<Rightarrow> string \<Rightarrow> int \<Rightarrow> exn + string \<times> log_record list" where
  "run_command env cmd name timeout =
     try_except
       (case subprocess_run env cmd timeout of
          Inl e \<Rightarrow> Inl e
        | Inr result \<Rightarrow>
            Inr (stdout result,
                 if returncode result \<noteq> 0
                 then [(WARNING, Retorno_codigo name (returncode result) (str_strip (stderr result)))]
                 else []))
       (\<lambda>e. Inr ([], [(WARNING, Error_ejecutando name e)]))"

subsection \<open>DNS resolution and HTTP check\<close>

text \<open>\<open>dns_resolve(subdomain)\<close> returns the pair \<open>(ip, cname)\<close>.\<close>

definition dns_resolve :: "env \<Rightarrow> string \<Rightarrow> exn + string option \<times> string option" where
  "dns_resolve env subdomain =
     try_except
       (case gethostbyname env subdomain of
          Inl e \<Rightarrow> Inl e
        | Inr addr \<Rightarrow>
            (case try_except
                    (case gethostbyname_ex env subdomain of
                       Inl e \<Rightarrow> Inl e
                     | Inr (hostname, aliases, addrs) \<Rightarrow> Inr (Some hostname))
                    (\<lambda>e. Inr None) of
               Inl e \<Rightarrow> Inl e
             | Inr canonical \<Rightarrow> Inr (Some addr, canonical)))
       (\<lambda>e. Inr (None, None))"

text \<open>
  \<open>requests.get(url, timeout=t, allow_redirects=True).status_code\<close>. The HTTP client under
  \<open>requests\<close> reads the code from the status line and raises \<open>BadStatusLine\<close> unless
  it lies between 100 and 999, so no other code reaches the program.
\<close>

definition requests_get :: "env \<Rightarrow> string \<Rightarrow> int \<Rightarrow> exn + int" where
  "requests_get env url timeout =
     (case http_answer env url timeout of
        Inl e \<Rightarrow> Inl e
      | Inr code \<Rightarrow>
          if code < 100 \<or> 999 < code then Inl (Exception ''BadStatusLine'') else Inr code)"

text \<open>
  \<open>http_check(subdomain)\<close>. The list of URLs requested so far is passed in and returned
  with the URL of this request added, whether the request raises or answers.
\<close>

definition http_url :: "string \<Rightarrow> string" where
  "http_url subdomain = ''http://'' @ subdomain"

definition http_check :: "env \<Rightarrow> string \<Rightarrow> string list \<Rightarrow> exn + int option \<times> string list" where
  "http_check env subdomain requested =
     (let url = http_url subdomain
      in try_except
           (case requests_get env url 5 of
              Inl e \<Rightarrow> Inl e
            | Inr status_code \<Rightarrow> Inr (Some status_code, requested @ [url]))
           (\<lambda>e. Inr (None, requested @ [url])))"

subsection \<open>State of a run\<close>

record probe_record =
  ip :: "string option"
  cname :: "string option"
  http_status :: "int option"

type_synonym probe_dict = "(string \<times> probe_record) list"

text \<open>\<open>d[k] = v\<close> on a dict: a present key keeps its place, a new key goes last.\<close>

fun dict_set :: "('k \<times> 'v) list \<Rightarrow> 'k \<Rightarrow> 'v \<Rightarrow> ('k \<times> 'v) list" where
  "dict_set [] k v = [(k, v)]"
| "dict_set ((k', v') # d) k v =
     (if k' = k then (k, v) # d else (k', v') # dict_set d k v)"

datatype json = JNull | JInt int | JStr string | JArr "json list" | JObj "(string \<times> json) list"

text \<open>
  A file written by the run: the object handed to \<open>json.dump\<close>, or the strings handed to
  successive \<open>f.write\<close> calls.
\<close>

datatype file_content = Json_dump json | Text_writes "string list"

record run_state =
  available_tools :: "string list"
  all_subdomains :: "string set"
  subdomain_data :: probe_dict
  active_subdomains :: probe_dict
  http_requests :: "string list"
  logged :: "log_record list"
  made_dirs :: "string list"
  files :: "(string \<times> file_content) list"

definition init_state :: run_state where
  "init_state =
     \<lparr>available_tools = [], all_subdomains = {}, subdomain_data = [], active_subdomains = [],
      http_requests = [], logged = [], made_dirs = [], files = []\<rparr>"

subsection \<open>Result aggregator\<close>

text \<open>The dict \<open>tools\<close> of \<open>main\<close>, in insertion order: name, command, self-test words.\<close>

definition tools :: "string \<Rightarrow> (string \<times> string \<times> string list) list" where
  "tools d =
     [(''subscraper'',
         ''python3 subscraper/subscraper/subscraper.py -d '' @ d @ '' -silent -active'',
         [''python3'', ''subscraper.py'']),
      (''subfinder'', ''subfinder -d '' @ d @ '' -all -silent'', [''subfinder'']),
      (''assetfinder'', ''assetfinder --subs-only '' @ d, [''assetfinder'']),
      (''sublist3r'', ''sublist3r -d '' @ d, [''python'', ''sublist3r''])]"

text \<open>
  \<open>set(line.strip() for line in out.splitlines() if line.strip() and domain in line)\<close>.
\<close>

definition found_subdomains :: "string \<Rightarrow> string \<Rightarrow> string set" where
  "found_subdomains d out =
     set (map str_strip
            (filter (\<lambda>line. str_strip line \<noteq> [] \<and> str_contains d line) (str_splitlines out)))"

text \<open>The loop over the tools (lines 109 to 118 of the source).\<close>

fun tools_loop ::
  "env \<Rightarrow> string \<Rightarrow> (string \<times> string \<times> string list) list \<Rightarrow> run_state \<Rightarrow> exn + run_state" where
  "tools_loop env d [] st = Inr st"
| "tools_loop env d ((name, cmd, check) # rest) st =
     (case check_tool env (str_join '' '' check @ '' --help'') name of
        Inl e \<Rightarrow> Inl e
      | Inr (ok, lg) \<Rightarrow>
          if ok then
            (case run_command env cmd name 300 of
               Inl e \<Rightarrow> Inl e
             | Inr (out, lg') \<Rightarrow>
                 let found = found_subdomains d out
                 in tools_loop env d rest
                      (st\<lparr>logged := logged st @ lg @ [(INFO, Ejecutando name)] @ lg'
                                     @ [(INFO, Subdominios_encontrados name (card found))],
                          all_subdomains := all_subdomains st \<union> found,
                          available_tools := available_tools st @ [name]\<rparr>))
          else tools_loop env d rest
                 (st\<lparr>logged := logged st @ lg @ [(WARNING, No_disponible_saltando name)]\<rparr>))"

text \<open>
  The clean-up after the loop (lines 119 to 122):
  \<open>all_subdomains = set(s for s in all_subdomains if s.endswith(domain))\<close>.
\<close>

definition limpieza :: "string \<Rightarrow> run_state \<Rightarrow> run_state" where
  "limpieza d st =
     (let kept = Set.filter (\<lambda>s. str_endswith s d) (all_subdomains st)
      in st\<lparr>logged := logged st @ [(INFO, Total_sin_filtrar (card (all_subdomains st))),
                                      (INFO, Total_unicos (card kept))],
            all_subdomains := kept\<rparr>)"

subsection \<open>Liveness prober\<close>

text \<open>Truth value of \<open>ip\<close> (\<open>None\<close> or a string) and of \<open>status and status < 600\<close>.\<close>

definition truthy_str :: "string option \<Rightarrow> bool" where
  "truthy_str v = (case v of None \<Rightarrow> False | Some s \<Rightarrow> s \<noteq> [])"

definition status_and_below_600 :: "int option \<Rightarrow> bool" where
  "status_and_below_600 status = (case status of None \<Rightarrow> False | Some c \<Rightarrow> c \<noteq> 0 \<and> c < 600)"

text \<open>
  The loop over the completed futures (lines 138 to 147); the list is the order of
  completion. The workers of the pool run \<open>dns_resolve\<close> only: the body of the loop,
  with the HTTP check and the writes to both dicts, runs in the calling thread, one completed
  future after the other, so the width of the pool shows in the order of completion and
  nowhere else. \<open>future.result()\<close> re-raises what \<open>dns_resolve\<close> raised.
\<close>

fun probe_loop :: "env \<Rightarrow> string list \<Rightarrow> run_state \<Rightarrow> exn + run_state" where
  "probe_loop env [] st = Inr st"
| "probe_loop env (sub # rest) st =
     (case dns_resolve env sub of
        Inl e \<Rightarrow> Inl e
      | Inr (addr, canonical) \<Rightarrow>
          if truthy_str addr then
            (case http_check env sub (http_requests st) of
               Inl e \<Rightarrow> Inl e
             | Inr (status, requested) \<Rightarrow>
                 let r = \<lparr>ip = addr, cname = canonical, http_status = status\<rparr>;
                     st1 = st\<lparr>http_requests := requested,
                              subdomain_data := dict_set (subdomain_data st) sub r\<rparr>
                 in probe_loop env rest
                      (if status_and_below_600 status
                       then st1\<lparr>active_subdomains := dict_set (active_subdomains st1) sub r\<rparr>
                       else st1))
          else probe_loop env rest
                 (st\<lparr>subdomain_data :=
                       dict_set (subdomain_data st) sub
                         \<lparr>ip = None, cname = None, http_status = None\<rparr>\<rparr>))"

text \<open>
  What one iteration stores for a candidate, as a function of the answers of the resolver
  and of the HTTP client (used to describe the loop as a whole).
\<close>

definition probe_record_of :: "env \<Rightarrow> string \<Rightarrow> probe_record" where
  "probe_record_of env sub =
     (case gethostbyname env sub of
        Inl e \<Rightarrow> \<lparr>ip = None, cname = None, http_status = None\<rparr>
      | Inr addr \<Rightarrow>
          if addr = [] then \<lparr>ip = None, cname = None, http_status = None\<rparr>
          else \<lparr>ip = Some addr,
                cname = (case gethostbyname_ex env sub of
                           Inl e \<Rightarrow> None
                         | Inr (hostname, aliases, addrs) \<Rightarrow> Some hostname),
                http_status = (case requests_get env (http_url sub) 5 of
                                 Inl e \<Rightarrow> None
                               | Inr status_code \<Rightarrow> Some status_code)\<rparr>)"

subsection \<open>Report writer\<close>

text \<open>\<open>os.path.join(a, b)\<close> on a POSIX system.\<close>

definition path_join :: "string \<Rightarrow> string \<Rightarrow> string" where
  "path_join a b =
     (if take 1 b = ''/'' then b
      else if a = [] \<or> str_endswith a ''/'' then a @ b
      else a @ ''/'' @ b)"

definition json_opt_str :: "string option \<Rightarrow> json" where
  "json_opt_str v = (case v of None \<Rightarrow> JNull | Some s \<Rightarrow> JStr s)"

definition json_opt_int :: "int option \<Rightarrow> json" where
  "json_opt_int v = (case v of None \<Rightarrow> JNull | Some i \<Rightarrow> JInt i)"

definition json_record :: "probe_record \<Rightarrow> json" where
  "json_record r =
     JObj [(''ip'', json_opt_str (ip r)), (''cname'', json_opt_str (cname r)),
           (''http_status'', json_opt_int (http_status r))]"

definition json_dict :: "probe_dict \<Rightarrow> json" where
  "json_dict d = JObj (map (\<lambda>(k, r). (k, json_record r)) d)"

text \<open>
  \<open>with open(path, "w") as f: ...\<close> for each report in turn. The source has no handler
  around it: the first error ends the run. The state keeps the files in the order in which
  they are written.
\<close>

fun write_files :: "env \<Rightarrow> (string \<times> file_content) list \<Rightarrow> run_state \<Rightarrow> exn + run_state" where
  "write_files env [] st = Inr st"
| "write_files env ((path, doc) # rest) st =
     (case write_error env path of
        Some e \<Rightarrow> Inl e
      | None \<Rightarrow> write_files env rest (st\<lparr>files := files st @ [(path, doc)]\<rparr>))"

text \<open>Lines 149 to 182: level statistics, metadata, the four files and the last two log lines.\<close>

definition base_completos :: "string \<Rightarrow> string \<Rightarrow> string \<Rightarrow> string" where
  "base_completos output_dir d timestamp =
     path_join output_dir (''subdominios_completos_'' @ d @ ''_'' @ timestamp)"

definition base_activos :: "string \<Rightarrow> string \<Rightarrow> string \<Rightarrow> string" where
  "base_activos output_dir d timestamp =
     path_join output_dir (''subdominios_activos_'' @ d @ ''_'' @ timestamp)"

definition write_reports ::
  "env \<Rightarrow> string \<Rightarrow> string \<Rightarrow> string \<Rightarrow> run_state \<Rightarrow> exn + run_state" where
  "write_reports env output_dir d timestamp st =
     (let lvl2 = extract_subdomains_level (set_iter env (all_subdomains st)) 2;
          lvl3 = extract_subdomains_level (set_iter env (all_subdomains st)) 3;
          total = card (all_subdomains st);
          activos = length (active_subdomains st);
          stats = JObj [(''total'', JInt (int total)), (''activos'', JInt (int activos)),
                        (''nivel2'', JInt (int (card lvl2))), (''nivel3'', JInt (int (card lvl3)))];
          metadata = JObj [(''timestamp'', JStr timestamp), (''dominio'', JStr d),
                           (''herramientas'', JArr (map JStr (available_tools st))),
                           (''estadisticas'', stats)];
          base = base_completos output_dir d timestamp;
          base_act = base_activos output_dir d timestamp
      in case write_files env
                [(base @ ''.json'',
                    Json_dump (JObj [(''metadata'', metadata),
                                     (''subdominios'', json_dict (subdomain_data st))])),
                 (base_act @ ''.json'',
                    Json_dump (JObj [(''metadata'', metadata),
                                     (''subdominios'', json_dict (active_subdomains st))])),
                 (base @ ''.txt'',
                    Text_writes (map (\<lambda>s. s @ ''\<newline>'')
                                   (sorted_list_of_set (all_subdomains st)))),
                 (base_act @ ''.txt'',
                    Text_writes (map (\<lambda>s. s @ ''\<newline>'')
                                   (sort (map fst (active_subdomains st)))))]
                st of
           Inl e \<Rightarrow> Inl e
         | Inr st' \<Rightarrow>
             Inr (st'\<lparr>logged := logged st' @
                    [(INFO, Reportes_generados output_dir),
                     (INFO, Resumen total activos (card lvl2) (card lvl3))]\<rparr>))"

subsection \<open>The program\<close>

record args =
  domain :: string
  output_dir :: string
  verbose :: bool

definition domain_choices :: "string list" where
  "domain_choices = [''testfire.net'', ''vulnweb.com'']"

text \<open>
  \<open>os.makedirs(path, exist_ok=True)\<close>: the empty path names no directory and raises
  \<open>FileNotFoundError\<close>; for any other path the file system decides.
\<close>

definition os_makedirs :: "env \<Rightarrow> string \<Rightarrow> exn + unit" where
  "os_makedirs env path =
     (if path = [] then Inl (Exception ''FileNotFoundError'')
      else (case makedirs_error env path of Some e \<Rightarrow> Inl e | None \<Rightarrow> Inr ()))"

text \<open>
  The first part of \<open>main\<close>, up to the end of the loop over the tools:
  \<open>os.makedirs(output_dir, exist_ok=True)\<close>, then the loop.
\<close>

definition aggregate :: "env \<Rightarrow> args \<Rightarrow> exn + run_state" where
  "aggregate env a =
     (case os_makedirs env (output_dir a) of
        Inl e \<Rightarrow> Inl e
      | Inr u \<Rightarrow>
          tools_loop env (domain a) (tools (domain a))
            (init_state\<lparr>made_dirs := [output_dir a]\<rparr>))"

text \<open>The body of \<open>main\<close> after the arguments are parsed.\<close>

definition run :: "env \<Rightarrow> args \<Rightarrow> exn + run_state" where
  "run env a =
     (let timestamp = now_strftime env
      in case aggregate env a of
           Inl e \<Rightarrow> Inl e
         | Inr st1 \<Rightarrow>
             let st2 = limpieza (domain a) st1
             in case probe_loop env (as_completed env (set_iter env (all_subdomains st2))) st2 of
                  Inl e \<Rightarrow> Inl e
                | Inr st3 \<Rightarrow> write_reports env (output_dir a) (domain a) timestamp st3)"

text \<open>
  \<open>main()\<close>: the argument parser exits with status 2 when the domain is not one of the
  two accepted values; otherwise the run either raises or returns its final state. The
  flag \<open>verbose\<close> only lowers the threshold of the logger to \<open>DEBUG\<close>, and the
  program logs nothing below \<open>INFO\<close>.
\<close>

datatype outcome = Exit int | Raised exn | Returned run_state

definition main :: "env \<Rightarrow> args \<Rightarrow> outcome" where
  "main env a =
     (if domain a \<notin> set domain_choices then Exit 2
      else (case run env a of Inl e \<Rightarrow> Raised e | Inr st \<Rightarrow> Returned st))"

subsection \<open>Reading the reports back\<close>

text \<open>
  The keys of the record map of a JSON report, in the order of the document, and the lines
  of a text report (each write is one line and its newline).
\<close>

fun json_report_keys :: "file_content \<Rightarrow> string list" where
  "json_report_keys (Json_dump (JObj [(m, metadata), (s, JObj records)])) = map fst records"
| "json_report_keys other = []"

fun text_report_lines :: "file_content \<Rightarrow> string list" where
  "text_report_lines (Text_writes ws) = map butlast ws"
| "text_report_lines other = []"

subsection \<open>Example environments\<close>

text \<open>
  Only the self-test of subfinder returns, the others time out; subfinder exits with code 1
  after printing five lines, three of which end with the domain. Two names resolve, one of
  them without a canonical name, and one of the two HTTP requests is answered. The file
  system refuses nothing. A set is visited in sorted order and the futures complete in
  reverse order.
\<close>

definition example_args :: args where
  "example_args = \<lparr>domain = ''testfire.net'', output_dir = ''output'', verbose = False\<rparr>"

definition example_env :: env where
  "example_env =
     \<lparr>subprocess_run = (\<lambda>cmd t.
         if cmd = ''subfinder --help'' then Inr \<lparr>returncode = 0, stdout = ''usage'', stderr = []\<rparr>
         else if t = 10 then Inl (Exception ''timed out'')
         else Inr \<lparr>returncode = 1,
                   stdout = ''eviltestfire.net\<newline> www.testfire.net  \<newline>''
                            @ ''http://testfire.net/x\<newline>other.org\<newline>api.testfire.net'',
                   stderr = '' boom \<newline>''\<rparr>),
      gethostbyname = (\<lambda>n.
         if n = ''www.testfire.net'' then Inr ''10.0.0.1''
         else if n = ''api.testfire.net'' then Inr ''10.0.0.2''
         else Inl (Exception ''Name or service not known'')),
      gethostbyname_ex = (\<lambda>n.
         if n = ''api.testfire.net'' then Inr (''api.testfire.net'', [], [''10.0.0.2''])
         else Inl (Exception ''Unknown host'')),
      http_answer = (\<lambda>url t.
         if url = ''http://www.testfire.net'' then Inr 200
         else Inl (Exception ''Connection refused'')),
      makedirs_error = (\<lambda>path. None),
      write_error = (\<lambda>path. None),
      set_iter = sorted_list_of_set,
      as_completed = rev,
      now_strftime = ''20240101_120000''\<rparr>"

text \<open>The same world, but the run of subfinder ends in \<open>TimeoutExpired\<close> too.\<close>

definition example_env_timeout :: env where
  "example_env_timeout =
     example_env\<lparr>subprocess_run := (\<lambda>cmd t.
        if cmd = ''subfinder --help'' then Inr \<lparr>returncode = 0, stdout = ''usage'', stderr = []\<rparr>
        else Inl (Exception ''timed out''))\<rparr>"

section \<open>Properties\<close>

subsection \<open>The calls that catch their exceptions, and the loops\<close>

lemma check_tool_value:
  "check_tool env cmd name =
     Inr (case subprocess_run env cmd 10 of
            Inl e \<Rightarrow> (False, [(WARNING, Herramienta_no_disponible name e)])
          | Inr result \<Rightarrow> (True, []))"
  by (simp add: check_tool_def try_except_def split: sum.splits)

lemma run_command_value:
  "run_command env cmd name timeout =
     Inr (case subprocess_run env cmd timeout of
            Inl e \<Rightarrow> ([], [(WARNING, Error_ejecutando name e)])
          | Inr result \<Rightarrow>
              (stdout result,
               if returncode result \<noteq> 0
               then [(WARNING, Retorno_codigo name (returncode result) (str_strip (stderr result)))]
               else []))"
  by (simp add: run_command_def try_except_def split: sum.splits)

lemma dns_resolve_value:
  "dns_resolve env sub =
     Inr (case gethostbyname env sub of
            Inl e \<Rightarrow> (None, None)
          | Inr addr \<Rightarrow>
              (Some addr,
               case gethostbyname_ex env sub of
                 Inl e \<Rightarrow> None
               | Inr (hostname, aliases, addrs) \<Rightarrow> Some hostname))"
  by (simp add: dns_resolve_def try_except_def split: sum.splits prod.splits)

lemma http_check_value:
  "http_check env sub requested =
     Inr (case requests_get env (http_url sub) 5 of
            Inl e \<Rightarrow> None
          | Inr status_code \<Rightarrow> Some status_code,
          requested @ [http_url sub])"
  by (simp add: http_check_def try_except_def Let_def split: sum.splits)

lemma dict_set_fresh:
  "k \<notin> fst ` set d \<Longrightarrow> dict_set d k v = d @ [(k, v)]"
  by (induction d k v rule: dict_set.induct) auto

lemma probe_loop_step:
  assumes "sub \<notin> fst ` set (subdomain_data st)" and "sub \<notin> fst ` set (active_subdomains st)"
  shows "probe_loop env (sub # rest) st =
           probe_loop env rest
             (st\<lparr>http_requests := http_requests st
                     @ (if ip (probe_record_of env sub) \<noteq> None then [http_url sub] else []),
                 subdomain_data := subdomain_data st @ [(sub, probe_record_of env sub)],
                 active_subdomains := active_subdomains st
                     @ (if status_and_below_600 (http_status (probe_record_of env sub))
                        then [(sub, probe_record_of env sub)] else [])\<rparr>)"
proof (cases "gethostbyname env sub")
  case (Inl e)
  then show ?thesis
    using assms
    by (simp add: dns_resolve_value probe_record_of_def truthy_str_def status_and_below_600_def
        dict_set_fresh)
next
  case (Inr addr)
  show ?thesis
  proof (cases "addr = []")
    case True
    then show ?thesis
      using assms Inr
      by (simp add: dns_resolve_value probe_record_of_def truthy_str_def status_and_below_600_def
          dict_set_fresh)
  next
    case False
    then show ?thesis
      using assms Inr
      by (simp add: dns_resolve_value http_check_value probe_record_of_def truthy_str_def
          dict_set_fresh Let_def)
  qed
qed

lemma probe_loop_value:
  assumes "distinct order"
    and "set order \<inter> fst ` set (subdomain_data st) = {}"
    and "set order \<inter> fst ` set (active_subdomains st) = {}"
  shows "probe_loop env order st =
           Inr (st\<lparr>http_requests := http_requests st
                      @ map http_url (filter (\<lambda>s. ip (probe_record_of env s) \<noteq> None) order),
                  subdomain_data := subdomain_data st
                      @ map (\<lambda>s. (s, probe_record_of env s)) order,
                  active_subdomains := active_subdomains st
                      @ map (\<lambda>s. (s, probe_record_of env s))
                          (filter (\<lambda>s. status_and_below_600 (http_status (probe_record_of env s)))
                             order)\<rparr>)"
  using assms
proof (induction order arbitrary: st)
  case Nil
  show ?case by simp
next
  case (Cons sub rest)
  let ?st' = "st\<lparr>http_requests := http_requests st
                     @ (if ip (probe_record_of env sub) \<noteq> None then [http_url sub] else []),
                 subdomain_data := subdomain_data st @ [(sub, probe_record_of env sub)],
                 active_subdomains := active_subdomains st
                     @ (if status_and_below_600 (http_status (probe_record_of env sub))
                        then [(sub, probe_record_of env sub)] else [])\<rparr>"
  have f1: "sub \<notin> fst ` set (subdomain_data st)" and f2: "sub \<notin> fst ` set (active_subdomains st)"
    using Cons.prems by auto
  have step: "probe_loop env (sub # rest) st = probe_loop env rest ?st'"
    by (rule probe_loop_step [OF f1 f2])
  have d: "distinct rest" and nin: "sub \<notin> set rest" using Cons.prems by auto
  have a: "set rest \<inter> fst ` set (subdomain_data ?st') = {}"
    using Cons.prems nin by auto
  have b: "set rest \<inter> fst ` set (active_subdomains ?st') = {}"
    using Cons.prems nin by auto
  show ?case
    unfolding step Cons.IH [OF d a b] by simp
qed


lemma probe_loop_total: "\<exists>st'. probe_loop env order st = Inr st'"
proof (induction order arbitrary: st)
  case Nil
  show ?case by simp
next
  case (Cons sub rest)
  show ?case
    by (simp add: dns_resolve_value http_check_value Let_def Cons.IH split: sum.splits)
qed

lemma probe_loop_frame:
  "probe_loop env order st = Inr st' \<Longrightarrow>
     all_subdomains st' = all_subdomains st \<and> available_tools st' = available_tools st \<and>
     logged st' = logged st \<and> made_dirs st' = made_dirs st \<and> files st' = files st"
proof (induction order arbitrary: st)
  case Nil
  then show ?case by simp
next
  case (Cons sub rest)
  from Cons.prems obtain st1 where
    rest: "probe_loop env rest st1 = Inr st'" and
    same: "all_subdomains st1 = all_subdomains st \<and> available_tools st1 = available_tools st \<and>
           logged st1 = logged st \<and> made_dirs st1 = made_dirs st \<and> files st1 = files st"
    by (auto simp: dns_resolve_value http_check_value Let_def split: sum.splits if_splits)
  from Cons.IH [OF rest] same show ?case by simp
qed

lemma tools_loop_total: "\<exists>st'. tools_loop env d ts st = Inr st'"
proof (induction ts arbitrary: st)
  case Nil
  show ?case by simp
next
  case (Cons t ts)
  obtain name cmd check where t: "t = (name, cmd, check)" by (cases t) auto
  show ?case
    unfolding t
    by (simp add: check_tool_value run_command_value Let_def Cons.IH split: sum.splits)
qed

lemma tools_loop_frame:
  "tools_loop env d ts st = Inr st' \<Longrightarrow>
     subdomain_data st' = subdomain_data st \<and> active_subdomains st' = active_subdomains st \<and>
     http_requests st' = http_requests st \<and> made_dirs st' = made_dirs st \<and>
     files st' = files st \<and> (finite (all_subdomains st) \<longrightarrow> finite (all_subdomains st'))"
proof (induction ts arbitrary: st)
  case Nil
  then show ?case by simp
next
  case (Cons t ts)
  obtain name cmd check where t: "t = (name, cmd, check)" by (cases t) auto
  from Cons.prems obtain st1 where
    rest: "tools_loop env d ts st1 = Inr st'" and
    same: "subdomain_data st1 = subdomain_data st \<and> active_subdomains st1 = active_subdomains st \<and>
           http_requests st1 = http_requests st \<and> made_dirs st1 = made_dirs st \<and>
           files st1 = files st \<and> (finite (all_subdomains st) \<longrightarrow> finite (all_subdomains st1))"
    unfolding t
    by (auto simp: check_tool_value run_command_value found_subdomains_def Let_def
        split: sum.splits if_splits)
  from Cons.IH [OF rest] same show ?case by simp
qed

lemma aggregate_frame:
  assumes "aggregate env a = Inr st1"
  shows "subdomain_data st1 = []" and "active_subdomains st1 = []" and "http_requests st1 = []"
    and "made_dirs st1 = [output_dir a]" and "files st1 = []" and "finite (all_subdomains st1)"
proof -
  from assms have
    "tools_loop env (domain a) (tools (domain a)) (init_state\<lparr>made_dirs := [output_dir a]\<rparr>)
       = Inr st1"
    by (simp add: aggregate_def split: sum.splits)
  from tools_loop_frame [OF this]
  show "subdomain_data st1 = []" and "active_subdomains st1 = []" and "http_requests st1 = []"
    and "made_dirs st1 = [output_dir a]" and "files st1 = []" and "finite (all_subdomains st1)"
    by (simp_all add: init_state_def)
qed

lemma str_endswith_iff: "str_endswith s d \<longleftrightarrow> (\<exists>p. s = p @ d)"
proof
  assume "str_endswith s d"
  then have "s = take (length s - length d) s @ d"
    by (metis append_take_drop_id str_endswith_def)
  then show "\<exists>p. s = p @ d" ..
next
  assume "\<exists>p. s = p @ d"
  then show "str_endswith s d" by (auto simp: str_endswith_def)
qed

lemma limpieza_fields:
  "all_subdomains (limpieza d st) = Set.filter (\<lambda>s. str_endswith s d) (all_subdomains st)"
  "subdomain_data (limpieza d st) = subdomain_data st"
  "active_subdomains (limpieza d st) = active_subdomains st"
  "http_requests (limpieza d st) = http_requests st"
  "files (limpieza d st) = files st"
  "made_dirs (limpieza d st) = made_dirs st"
  "available_tools (limpieza d st) = available_tools st"
  by (auto simp: limpieza_def Let_def)

lemma write_files_Inr:
  "write_files env fs st = Inr st' \<Longrightarrow> st' = st\<lparr>files := files st @ fs\<rparr>"
proof (induction fs arbitrary: st)
  case Nil
  then show ?case by simp
next
  case (Cons f fs)
  obtain path doc where f: "f = (path, doc)" by (cases f) auto
  from Cons.prems have "write_files env fs (st\<lparr>files := files st @ [(path, doc)]\<rparr>) = Inr st'"
    unfolding f by (simp split: option.splits)
  from Cons.IH [OF this] show ?case
    by (simp add: f)
qed

lemma write_files_ok:
  "\<forall>path \<in> fst ` set fs. write_error env path = None \<Longrightarrow>
     write_files env fs st = Inr (st\<lparr>files := files st @ fs\<rparr>)"
proof (induction fs arbitrary: st)
  case Nil
  show ?case by simp
next
  case (Cons f fs)
  obtain path doc where f: "f = (path, doc)" by (cases f) auto
  have w: "write_error env path = None" and rest: "\<forall>path \<in> fst ` set fs. write_error env path = None"
    using Cons.prems by (simp_all add: f)
  show ?case
    unfolding f by (simp add: w Cons.IH [OF rest])
qed

lemma write_reports_fields:
  assumes "write_reports env out d ts st = Inr st'"
  shows "all_subdomains st' = all_subdomains st"
    and "subdomain_data st' = subdomain_data st"
    and "active_subdomains st' = active_subdomains st"
    and "http_requests st' = http_requests st"
    and "made_dirs st' = made_dirs st"
    and "available_tools st' = available_tools st"
proof -
  from assms obtain fs st'' lg where w: "write_files env fs st = Inr st''"
    and st': "st' = st''\<lparr>logged := lg\<rparr>"
    unfolding write_reports_def Let_def
    by (auto split: sum.splits simp del: write_files.simps)
  from write_files_Inr [OF w] st'
  show "all_subdomains st' = all_subdomains st"
    and "subdomain_data st' = subdomain_data st"
    and "active_subdomains st' = active_subdomains st"
    and "http_requests st' = http_requests st"
    and "made_dirs st' = made_dirs st"
    and "available_tools st' = available_tools st"
    by simp_all
qed

lemma write_reports_files:
  assumes "write_reports env out d ts st = Inr st'"
  shows "\<exists>metadata. files st' = files st @
     [(base_completos out d ts @ ''.json'',
         Json_dump (JObj [(''metadata'', metadata),
                          (''subdominios'', json_dict (subdomain_data st))])),
      (base_activos out d ts @ ''.json'',
         Json_dump (JObj [(''metadata'', metadata),
                          (''subdominios'', json_dict (active_subdomains st))])),
      (base_completos out d ts @ ''.txt'',
         Text_writes (map (\<lambda>s. s @ ''\<newline>'') (sorted_list_of_set (all_subdomains st)))),
      (base_activos out d ts @ ''.txt'',
         Text_writes (map (\<lambda>s. s @ ''\<newline>'') (sort (map fst (active_subdomains st)))))]"
proof -
  let ?fs = "\<lambda>metadata.
     [(base_completos out d ts @ ''.json'',
         Json_dump (JObj [(''metadata'', metadata),
                          (''subdominios'', json_dict (subdomain_data st))])),
      (base_activos out d ts @ ''.json'',
         Json_dump (JObj [(''metadata'', metadata),
                          (''subdominios'', json_dict (active_subdomains st))])),
      (base_completos out d ts @ ''.txt'',
         Text_writes (map (\<lambda>s. s @ ''\<newline>'') (sorted_list_of_set (all_subdomains st)))),
      (base_activos out d ts @ ''.txt'',
         Text_writes (map (\<lambda>s. s @ ''\<newline>'') (sort (map fst (active_subdomains st)))))]"
  from assms obtain metadata st'' lg where w: "write_files env (?fs metadata) st = Inr st''"
    and st': "st' = st''\<lparr>logged := lg\<rparr>"
    unfolding write_reports_def Let_def
    by (auto split: sum.splits simp del: write_files.simps)
  from write_files_Inr [OF w] st' have "files st' = files st @ ?fs metadata"
    by simp
  then show ?thesis by blast
qed

text \<open>The phases of a run that returns.\<close>

lemma run_phases:
  assumes "run env a = Inr st"
  obtains st1 st3 where
    "aggregate env a = Inr st1"
    "probe_loop env (as_completed env (set_iter env (all_subdomains (limpieza (domain a) st1))))
       (limpieza (domain a) st1) = Inr st3"
    "write_reports env (output_dir a) (domain a) (now_strftime env) st3 = Inr st"
  using assms by (auto simp: run_def Let_def split: sum.splits)

lemma run_all_subdomains:
  assumes "run env a = Inr st" and "aggregate env a = Inr st1"
  shows "all_subdomains st = Set.filter (\<lambda>s. str_endswith s (domain a)) (all_subdomains st1)"
proof -
  from assms(1) obtain st1' st3 where
    a: "aggregate env a = Inr st1'" and
    p: "probe_loop env (as_completed env (set_iter env (all_subdomains (limpieza (domain a) st1'))))
       (limpieza (domain a) st1') = Inr st3" and
    w: "write_reports env (output_dir a) (domain a) (now_strftime env) st3 = Inr st"
    by (rule run_phases)
  have "st1' = st1" using a assms(2) by simp
  then show ?thesis
    using probe_loop_frame [OF p] write_reports_fields(1) [OF w] by (simp add: limpieza_fields)
qed

text \<open>The final state of a run whose scheduler is well behaved.\<close>

lemma run_final:
  assumes r: "run env a = Inr st" and ok: "scheduler_ok env (all_subdomains st)"
  defines "order \<equiv> as_completed env (set_iter env (all_subdomains st))"
  shows "set order = all_subdomains st" and "distinct order"
    and "finite (all_subdomains st)"
    and "subdomain_data st = map (\<lambda>s. (s, probe_record_of env s)) order"
    and "active_subdomains st =
           map (\<lambda>s. (s, probe_record_of env s))
             (filter (\<lambda>s. status_and_below_600 (http_status (probe_record_of env s))) order)"
    and "http_requests st =
           map http_url (filter (\<lambda>s. ip (probe_record_of env s) \<noteq> None) order)"
proof -
  from r obtain st1 st3 where
    a: "aggregate env a = Inr st1" and
    p: "probe_loop env (as_completed env (set_iter env (all_subdomains (limpieza (domain a) st1))))
       (limpieza (domain a) st1) = Inr st3" and
    w: "write_reports env (output_dir a) (domain a) (now_strftime env) st3 = Inr st"
    by (rule run_phases)
  note wf = write_reports_fields [OF w]
  let ?st2 = "limpieza (domain a) st1"
  have S: "all_subdomains st = all_subdomains ?st2"
    using probe_loop_frame [OF p] wf(1) by simp
  have o: "order = as_completed env (set_iter env (all_subdomains ?st2))"
    by (simp add: order_def S)
  show so: "set order = all_subdomains st" and d: "distinct order"
    using ok by (simp_all add: order_def scheduler_ok_def)
  show "finite (all_subdomains st)"
    using aggregate_frame(6) [OF a] by (simp add: S limpieza_fields)
  have e1: "subdomain_data ?st2 = []" and e2: "active_subdomains ?st2 = []"
    and e3: "http_requests ?st2 = []"
    using aggregate_frame [OF a] by (simp_all add: limpieza_fields)
  have "probe_loop env order ?st2 =
          Inr (?st2\<lparr>http_requests := http_requests ?st2
                      @ map http_url (filter (\<lambda>s. ip (probe_record_of env s) \<noteq> None) order),
                  subdomain_data := subdomain_data ?st2
                      @ map (\<lambda>s. (s, probe_record_of env s)) order,
                  active_subdomains := active_subdomains ?st2
                      @ map (\<lambda>s. (s, probe_record_of env s))
                          (filter (\<lambda>s. status_and_below_600 (http_status (probe_record_of env s)))
                             order)\<rparr>)"
    by (rule probe_loop_value [OF d]) (simp_all add: e1 e2)
  then have st3: "st3 = ?st2\<lparr>http_requests :=
                       map http_url (filter (\<lambda>s. ip (probe_record_of env s) \<noteq> None) order),
                  subdomain_data := map (\<lambda>s. (s, probe_record_of env s)) order,
                  active_subdomains := map (\<lambda>s. (s, probe_record_of env s))
                          (filter (\<lambda>s. status_and_below_600 (http_status (probe_record_of env s)))
                             order)\<rparr>"
    using p by (simp add: o [symmetric] e1 e2 e3)
  show "subdomain_data st = map (\<lambda>s. (s, probe_record_of env s)) order"
    by (simp add: wf(2) st3)
  show "active_subdomains st =
           map (\<lambda>s. (s, probe_record_of env s))
             (filter (\<lambda>s. status_and_below_600 (http_status (probe_record_of env s))) order)"
    by (simp add: wf(3) st3)
  show "http_requests st =
           map http_url (filter (\<lambda>s. ip (probe_record_of env s) \<noteq> None) order)"
    by (simp add: wf(4) st3)
qed

subsection \<open>Level extractor\<close>

lemma extract_loop_acc:
  "extract_loop subs level result = result \<union> extract_loop subs level {}"
proof (induction subs arbitrary: result)
  case Nil
  show ?case by simp
next
  case (Cons s subs)
  show ?case
  proof (cases "level + 2 \<le> int (length (str_split s (CHR ''.'')))")
    case True
    let ?x = "str_join ''.'' (slice_from (str_split s (CHR ''.'')) (- (level + 2)))"
    have "extract_loop (s # subs) level result = extract_loop subs level (insert ?x result)"
      using True by (simp add: Let_def)
    also have "\<dots> = insert ?x result \<union> extract_loop subs level {}"
      by (rule Cons.IH)
    also have "\<dots> = result \<union> (insert ?x {} \<union> extract_loop subs level {})"
      by blast
    also have "insert ?x {} \<union> extract_loop subs level {} = extract_loop subs level (insert ?x {})"
      by (rule Cons.IH [symmetric])
    also have "extract_loop subs level (insert ?x {}) = extract_loop (s # subs) level {}"
      using True by (simp add: Let_def)
    finally show ?thesis .
  next
    case False
    then show ?thesis using Cons.IH [of result] by (simp add: Let_def)
  qed
qed

lemma slice_from_last:
  assumes "0 < k" and "k \<le> int (length xs)"
  shows "slice_from xs (- k) = drop (length xs - nat k) xs"
proof -
  have "nat (max 0 (int (length xs) - k)) = length xs - nat k"
    using assms by linarith
  then show ?thesis using assms by (simp add: slice_from_def)
qed

lemma extract_subdomains_level_image:
  assumes "0 < level + 2"
  shows "extract_subdomains_level subs level =
           (\<lambda>c. str_join ''.'' (last_labels (nat (level + 2)) (labels c)))
             ` Set.filter (\<lambda>c. nat (level + 2) \<le> length (labels c)) (set subs)"
  unfolding extract_subdomains_level_def
proof (induction subs)
  case Nil
  show ?case by simp
next
  case (Cons s subs)
  let ?f = "\<lambda>c. str_join ''.'' (last_labels (nat (level + 2)) (labels c))"
  let ?P = "\<lambda>c. nat (level + 2) \<le> length (labels c)"
  have guard: "(level + 2 \<le> int (length (str_split s (CHR ''.'')))) = ?P s"
    using assms by (simp add: labels_def nat_le_iff)
  show ?case
  proof (cases "?P s")
    case True
    then have le: "level + 2 \<le> int (length (str_split s (CHR ''.'')))"
      using guard by simp
    have cut: "slice_from (str_split s (CHR ''.'')) (- (level + 2)) =
                 last_labels (nat (level + 2)) (labels s)"
      using slice_from_last [OF assms le] by (simp add: last_labels_def labels_def)
    have "extract_loop (s # subs) level {} = extract_loop subs level (insert (?f s) {})"
      using le cut by (simp add: Let_def)
    also have "\<dots> = insert (?f s) {} \<union> extract_loop subs level {}"
      by (rule extract_loop_acc)
    also have "\<dots> = insert (?f s) (?f ` Set.filter ?P (set subs))"
      using Cons.IH by simp
    also have "\<dots> = ?f ` Set.filter ?P (set (s # subs))"
      using True by auto
    finally show ?thesis .
  next
    case False
    then have nle: "\<not> level + 2 \<le> int (length (str_split s (CHR ''.'')))"
      using guard by simp
    have "extract_loop (s # subs) level {} = extract_loop subs level {}"
      using nle by (simp add: Let_def)
    also have "\<dots> = ?f ` Set.filter ?P (set subs)"
      by (rule Cons.IH)
    also have "\<dots> = ?f ` Set.filter ?P (set (s # subs))"
      using False by auto
    finally show ?thesis .
  qed
qed

text \<open>
  Claim C6. For every candidate set (visited in any order) and level 2 or 3, the level
  extractor of the source returns what the specification describes: exactly the candidates
  with at least \<open>level + 2\<close> dot-separated labels are kept, each is replaced by its last
  \<open>level + 2\<close> labels joined with dots, and the result is the set of these names.
\<close>

theorem extract_subdomains_level_refines_spec:
  assumes "level = 2 \<or> level = 3"
  shows "extract_subdomains_level subs (int level) = level_groups_spec (set subs) level"
proof -
  have pos: "0 < int level + 2" by simp
  have n: "nat (int level + 2) = level + 2" by simp
  show ?thesis
    using extract_subdomains_level_image [OF pos, of subs]
    unfolding n level_groups_spec_def .
qed

theorem extract_subdomains_level_refines_spec_witness:
  "extract_subdomains_level [''www.a.b.testfire.net'', ''testfire.net'', ''x.y.testfire.net''] 3
     = {''www.a.b.testfire.net''}
   \<and> level_groups_spec {''www.a.b.testfire.net'', ''testfire.net'', ''x.y.testfire.net''} 3
     = {''www.a.b.testfire.net''}"
proof -
  have lv: "(3::nat) = 2 \<or> (3::nat) = 3" by simp
  have eq: "extract_subdomains_level
              [''www.a.b.testfire.net'', ''testfire.net'', ''x.y.testfire.net''] (int 3)
            = level_groups_spec
                (set [''www.a.b.testfire.net'', ''testfire.net'', ''x.y.testfire.net'']) 3"
    by (rule extract_subdomains_level_refines_spec [OF lv])
  have val: "extract_subdomains_level
               [''www.a.b.testfire.net'', ''testfire.net'', ''x.y.testfire.net''] 3
             = {''www.a.b.testfire.net''}"
    by (simp add: extract_subdomains_level_def slice_from_def Let_def)
  show ?thesis using eq val by simp
qed

text \<open>
  Claim C7, as stated: level extraction with level 2 on the single candidate
  \<open>a.b.c.example.com\<close> yields the set holding \<open>c.example.com\<close>. The source keeps
  \<open>level + 2 = 4\<close> labels, so the statement fails.
\<close>

theorem level2_example_counterexample:
  "extract_subdomains_level [''a.b.c.example.com''] 2 \<noteq> {''c.example.com''}"
  by (simp add: extract_subdomains_level_def slice_from_def Let_def)

text \<open>
  Claim C7, amended: level extraction with level 2 on the single candidate
  \<open>a.b.c.example.com\<close> yields the set holding \<open>b.c.example.com\<close> (the last four
  labels), and a candidate with fewer than four labels, such as \<open>example.com\<close> itself, is
  left out of the result.
\<close>

theorem level2_example:
  "extract_subdomains_level [''a.b.c.example.com''] 2 = {''b.c.example.com''}
   \<and> extract_subdomains_level [''example.com''] 2 = {}
   \<and> extract_subdomains_level [''example.com'', ''a.b.c.example.com''] 2 = {''b.c.example.com''}"
  by (simp add: extract_subdomains_level_def slice_from_def Let_def)

subsection \<open>External tool runner\<close>

text \<open>
  Claim C8. For every command, tool name and timeout, the tool runner returns to its caller
  and the value is a string: when the process returns, whatever its exit code, the captured
  standard output (with one warning logged when the exit code is not zero); when the
  execution raises, the empty string (with one warning logged).
\<close>

theorem run_command_never_raises:
  "(\<exists>out lg. run_command env cmd name timeout = Inr (out, lg))
   \<and> (\<forall>result. subprocess_run env cmd timeout = Inr result \<longrightarrow>
         run_command env cmd name timeout =
           Inr (stdout result,
                if returncode result \<noteq> 0
                then [(WARNING, Retorno_codigo name (returncode result) (str_strip (stderr result)))]
                else []))
   \<and> (\<forall>e. subprocess_run env cmd timeout = Inl e \<longrightarrow>
         run_command env cmd name timeout = Inr ([], [(WARNING, Error_ejecutando name e)]))"
proof (cases "subprocess_run env cmd timeout")
  case (Inl e)
  then show ?thesis by (simp add: run_command_def try_except_def)
next
  case (Inr result)
  then show ?thesis by (simp add: run_command_def try_except_def)
qed

theorem run_command_never_raises_witness:
  "subprocess_run example_env ''subfinder -d testfire.net -all -silent'' 300 =
     Inr \<lparr>returncode = 1,
          stdout = ''eviltestfire.net\<newline> www.testfire.net  \<newline>''
                   @ ''http://testfire.net/x\<newline>other.org\<newline>api.testfire.net'',
          stderr = '' boom \<newline>''\<rparr>
   \<and> run_command example_env ''subfinder -d testfire.net -all -silent'' ''subfinder'' 300 =
     Inr (''eviltestfire.net\<newline> www.testfire.net  \<newline>''
            @ ''http://testfire.net/x\<newline>other.org\<newline>api.testfire.net'',
          [(WARNING, Retorno_codigo ''subfinder'' 1 ''boom'')])
   \<and> subprocess_run example_env_timeout ''subfinder -d testfire.net -all -silent'' 300 =
     Inl (Exception ''timed out'')
   \<and> run_command example_env_timeout ''subfinder -d testfire.net -all -silent'' ''subfinder'' 300 =
     Inr ([], [(WARNING, Error_ejecutando ''subfinder'' (Exception ''timed out''))])"
proof -
  let ?cmd = "''subfinder -d testfire.net -all -silent''"
  let ?out = "''eviltestfire.net\<newline> www.testfire.net  \<newline>''
                   @ ''http://testfire.net/x\<newline>other.org\<newline>api.testfire.net''"
  have a: "subprocess_run example_env ?cmd 300 =
             Inr \<lparr>returncode = 1, stdout = ?out, stderr = '' boom \<newline>''\<rparr>"
    by (simp add: example_env_def)
  have b: "subprocess_run example_env_timeout ?cmd 300 = Inl (Exception ''timed out'')"
    by (simp add: example_env_timeout_def example_env_def)
  have s: "str_strip '' boom \<newline>'' = ''boom''"
    by (simp add: str_strip_def isspace_def)
  from run_command_never_raises [of example_env ?cmd "''subfinder''" 300] a
  have c: "run_command example_env ?cmd ''subfinder'' 300 =
             Inr (?out, [(WARNING, Retorno_codigo ''subfinder'' 1 ''boom'')])"
    by (simp add: s)
  from run_command_never_raises [of example_env_timeout ?cmd "''subfinder''" 300] b
  have d: "run_command example_env_timeout ?cmd ''subfinder'' 300 =
             Inr ([], [(WARNING, Error_ejecutando ''subfinder'' (Exception ''timed out''))])"
    by simp
  from a b c d show ?thesis by simp
qed

subsection \<open>Facts about whole runs and about the example environments\<close>

lemma run_files:
  assumes "run env a = Inr st"
  shows "\<exists>metadata. files st =
     [(base_completos (output_dir a) (domain a) (now_strftime env) @ ''.json'',
         Json_dump (JObj [(''metadata'', metadata),
                          (''subdominios'', json_dict (subdomain_data st))])),
      (base_activos (output_dir a) (domain a) (now_strftime env) @ ''.json'',
         Json_dump (JObj [(''metadata'', metadata),
                          (''subdominios'', json_dict (active_subdomains st))])),
      (base_completos (output_dir a) (domain a) (now_strftime env) @ ''.txt'',
         Text_writes (map (\<lambda>s. s @ ''\<newline>'') (sorted_list_of_set (all_subdomains st)))),
      (base_activos (output_dir a) (domain a) (now_strftime env) @ ''.txt'',
         Text_writes (map (\<lambda>s. s @ ''\<newline>'') (sort (map fst (active_subdomains st)))))]"
proof -
  from assms obtain st1 st3 where
    a: "aggregate env a = Inr st1" and
    p: "probe_loop env (as_completed env (set_iter env (all_subdomains (limpieza (domain a) st1))))
       (limpieza (domain a) st1) = Inr st3" and
    w: "write_reports env (output_dir a) (domain a) (now_strftime env) st3 = Inr st"
    by (rule run_phases)
  have e: "files st3 = []"
    using probe_loop_frame [OF p] aggregate_frame(5) [OF a] by (simp add: limpieza_fields)
  note wf = write_reports_fields [OF w]
  from write_reports_files [OF w] show ?thesis
    unfolding e wf(1) [symmetric] wf(2) [symmetric] wf(3) [symmetric] by simp
qed

lemma map_of_probe_records:
  "map_of (map (\<lambda>s. (s, f s)) xs) k = (if k \<in> set xs then Some (f k) else None)"
  by (induction xs) auto



lemma run_aggregate: "run env a = Inr st \<Longrightarrow> \<exists>st1. aggregate env a = Inr st1"
  by (simp add: run_def Let_def split: sum.splits)

lemma example_scheduler_ok:
  assumes "finite S"
  shows "scheduler_ok example_env S" and "scheduler_ok example_env_timeout S"
  using assms
  by (simp_all add: scheduler_ok_def example_env_def example_env_timeout_def)

lemma example_aggregate_value:
  "case aggregate example_env example_args of
     Inl e \<Rightarrow> False
   | Inr st1 \<Rightarrow>
       all_subdomains st1 =
         {''api.testfire.net'', ''eviltestfire.net'', ''http://testfire.net/x'', ''www.testfire.net''}"
  by code_simp

lemma example_aggregate_returns: "\<exists>st1. aggregate example_env example_args = Inr st1"
  using example_aggregate_value by (cases "aggregate example_env example_args") simp_all

lemma example_aggregated:
  assumes "aggregate example_env example_args = Inr st1"
  shows "all_subdomains st1 =
           {''api.testfire.net'', ''eviltestfire.net'', ''http://testfire.net/x'', ''www.testfire.net''}"
  using example_aggregate_value assms by simp

lemma example_run_value:
  "case run example_env example_args of
     Inl e \<Rightarrow> False
   | Inr st \<Rightarrow>
       all_subdomains st = {''api.testfire.net'', ''eviltestfire.net'', ''www.testfire.net''}
       \<and> subdomain_data st =
           [(''www.testfire.net'',
               \<lparr>ip = Some ''10.0.0.1'', cname = None, http_status = Some 200\<rparr>),
            (''eviltestfire.net'', \<lparr>ip = None, cname = None, http_status = None\<rparr>),
            (''api.testfire.net'',
               \<lparr>ip = Some ''10.0.0.2'', cname = Some ''api.testfire.net'',
                  http_status = None\<rparr>)]
       \<and> active_subdomains st =
           [(''www.testfire.net'',
               \<lparr>ip = Some ''10.0.0.1'', cname = None, http_status = Some 200\<rparr>)]
       \<and> http_requests st = [''http://www.testfire.net'', ''http://api.testfire.net'']"
  by code_simp

lemma example_run_returns: "\<exists>st. run example_env example_args = Inr st"
  using example_run_value by (cases "run example_env example_args") simp_all

lemma example_final:
  assumes "run example_env example_args = Inr st"
  shows "all_subdomains st = {''api.testfire.net'', ''eviltestfire.net'', ''www.testfire.net''}"
    and "subdomain_data st =
           [(''www.testfire.net'', \<lparr>ip = Some ''10.0.0.1'', cname = None, http_status = Some 200\<rparr>),
            (''eviltestfire.net'', \<lparr>ip = None, cname = None, http_status = None\<rparr>),
            (''api.testfire.net'',
               \<lparr>ip = Some ''10.0.0.2'', cname = Some ''api.testfire.net'', http_status = None\<rparr>)]"
    and "active_subdomains st =
           [(''www.testfire.net'', \<lparr>ip = Some ''10.0.0.1'', cname = None, http_status = Some 200\<rparr>)]"
    and "http_requests st = [''http://www.testfire.net'', ''http://api.testfire.net'']"
  using example_run_value assms by simp_all

subsection \<open>Result aggregator\<close>

text \<open>
  Claim C1. Whatever the target domain and whatever the tools print, every candidate of the
  final candidate set of a run (the set left by the filter that follows the loop over the
  tools) ends with the domain.
\<close>

theorem final_candidates_end_with_domain:
  assumes "run env a = Inr st"
  shows "\<forall>c \<in> all_subdomains st. \<exists>p. c = p @ domain a"
proof
  fix c
  assume c: "c \<in> all_subdomains st"
  obtain st1 where a: "aggregate env a = Inr st1"
    using run_aggregate [OF assms] by blast
  have "str_endswith c (domain a)"
    using c run_all_subdomains [OF assms a] by simp
  then show "\<exists>p. c = p @ domain a"
    by (simp add: str_endswith_iff)
qed

theorem final_candidates_end_with_domain_witness:
  "\<exists>st. run example_env example_args = Inr st
      \<and> ''eviltestfire.net'' \<in> all_subdomains st
      \<and> ''http://testfire.net/x'' \<notin> all_subdomains st
      \<and> (\<exists>p. ''eviltestfire.net'' = p @ domain example_args)"
proof -
  obtain st where r: "run example_env example_args = Inr st"
    using example_run_returns by blast
  have S: "all_subdomains st = {''api.testfire.net'', ''eviltestfire.net'', ''www.testfire.net''}"
    by (rule example_final(1) [OF r])
  have m: "''eviltestfire.net'' \<in> all_subdomains st" and n: "''http://testfire.net/x'' \<notin> all_subdomains st"
    by (simp_all add: S)
  from final_candidates_end_with_domain [OF r] m
  have "\<exists>p. ''eviltestfire.net'' = p @ domain example_args" by blast
  with r m n show ?thesis by blast
qed

text \<open>
  Claim C10. The filter after aggregation is a test on characters, not on labels: an
  aggregated name that is any string followed by the characters of the domain stays a
  candidate, whether or not a dot precedes the domain. With the domain \<open>testfire.net\<close>
  the name \<open>eviltestfire.net\<close> stays.
\<close>

theorem suffix_filter_is_not_a_label_test:
  assumes "aggregate env a = Inr st1" and "run env a = Inr st"
    and "s \<in> all_subdomains st1" and "s = p @ domain a"
  shows "s \<in> all_subdomains st"
proof -
  have "str_endswith s (domain a)"
    using assms(4) str_endswith_iff by blast
  then show ?thesis
    using assms(3) run_all_subdomains [OF assms(2) assms(1)] by simp
qed

theorem suffix_filter_is_not_a_label_test_witness:
  "\<exists>st1 st. aggregate example_env example_args = Inr st1
      \<and> run example_env example_args = Inr st
      \<and> ''eviltestfire.net'' \<in> all_subdomains st1
      \<and> ''eviltestfire.net'' = ''evil'' @ domain example_args
      \<and> ''eviltestfire.net'' \<in> all_subdomains st"
proof -
  obtain st1 where a: "aggregate example_env example_args = Inr st1"
    using example_aggregate_returns by blast
  obtain st where r: "run example_env example_args = Inr st"
    using example_run_returns by blast
  have m: "''eviltestfire.net'' \<in> all_subdomains st1"
    by (simp add: example_aggregated [OF a])
  have e: "''eviltestfire.net'' = ''evil'' @ domain example_args"
    by (simp add: example_args_def)
  have "''eviltestfire.net'' \<in> all_subdomains st"
    by (rule suffix_filter_is_not_a_label_test [OF a r m e])
  with a r m e show ?thesis by blast
qed

subsection \<open>Liveness prober and reports\<close>

text \<open>
  Claim C2. After a run the full result map holds exactly one record for every candidate of
  the filtered set: its keys are pairwise different, they are the candidates, and their
  number is the size of the set. The keys of the record map of the full JSON report are
  the keys of that map, and as a set they are the lines written to the full text report.
\<close>

theorem one_record_per_candidate:
  assumes "run env a = Inr st" and "scheduler_ok env (all_subdomains st)"
  shows "distinct (map fst (subdomain_data st))
     \<and> set (map fst (subdomain_data st)) = all_subdomains st
     \<and> length (subdomain_data st) = card (all_subdomains st)
     \<and> map fst (files st) =
         [base_completos (output_dir a) (domain a) (now_strftime env) @ ''.json'',
          base_activos (output_dir a) (domain a) (now_strftime env) @ ''.json'',
          base_completos (output_dir a) (domain a) (now_strftime env) @ ''.txt'',
          base_activos (output_dir a) (domain a) (now_strftime env) @ ''.txt'']
     \<and> json_report_keys (snd (files st ! 0)) = map fst (subdomain_data st)
     \<and> set (json_report_keys (snd (files st ! 0))) = set (text_report_lines (snd (files st ! 2)))"
proof -
  let ?order = "as_completed env (set_iter env (all_subdomains st))"
  note fin = run_final [OF assms]
  have keys: "map fst (subdomain_data st) = ?order"
    by (simp add: fin(4) comp_def)
  have d: "distinct (map fst (subdomain_data st))"
    using fin(2) keys by simp
  have s: "set (map fst (subdomain_data st)) = all_subdomains st"
    using fin(1) keys by simp
  have "length (subdomain_data st) = length ?order"
    by (simp add: fin(4))
  also have "\<dots> = card (set ?order)"
    using fin(2) by (simp add: distinct_card)
  finally have l: "length (subdomain_data st) = card (all_subdomains st)"
    using fin(1) by simp
  from run_files [OF assms(1)] obtain metadata where f: "files st =
     [(base_completos (output_dir a) (domain a) (now_strftime env) @ ''.json'',
         Json_dump (JObj [(''metadata'', metadata),
                          (''subdominios'', json_dict (subdomain_data st))])),
      (base_activos (output_dir a) (domain a) (now_strftime env) @ ''.json'',
         Json_dump (JObj [(''metadata'', metadata),
                          (''subdominios'', json_dict (active_subdomains st))])),
      (base_completos (output_dir a) (domain a) (now_strftime env) @ ''.txt'',
         Text_writes (map (\<lambda>s. s @ ''\<newline>'') (sorted_list_of_set (all_subdomains st)))),
      (base_activos (output_dir a) (domain a) (now_strftime env) @ ''.txt'',
         Text_writes (map (\<lambda>s. s @ ''\<newline>'') (sort (map fst (active_subdomains st)))))]"
    by blast
  have p: "map fst (files st) =
         [base_completos (output_dir a) (domain a) (now_strftime env) @ ''.json'',
          base_activos (output_dir a) (domain a) (now_strftime env) @ ''.json'',
          base_completos (output_dir a) (domain a) (now_strftime env) @ ''.txt'',
          base_activos (output_dir a) (domain a) (now_strftime env) @ ''.txt'']"
    by (simp add: f)
  have j: "json_report_keys (snd (files st ! 0)) = map fst (subdomain_data st)"
    by (simp add: f json_dict_def comp_def case_prod_unfold)
  have t: "text_report_lines (snd (files st ! 2)) = sorted_list_of_set (all_subdomains st)"
    by (simp add: f comp_def)
  have "set (text_report_lines (snd (files st ! 2))) = all_subdomains st"
    using fin(3) by (simp add: t)
  then have e: "set (json_report_keys (snd (files st ! 0))) = set (text_report_lines (snd (files st ! 2)))"
    using j s by simp
  from d s l p j e show ?thesis by blast
qed


theorem one_record_per_candidate_witness:
  "\<exists>st. run example_env example_args = Inr st
      \<and> scheduler_ok example_env (all_subdomains st)
      \<and> distinct (map fst (subdomain_data st))
      \<and> set (map fst (subdomain_data st))
          = {''api.testfire.net'', ''eviltestfire.net'', ''www.testfire.net''}
      \<and> length (subdomain_data st) = 3
      \<and> set (text_report_lines (snd (files st ! 2)))
          = {''api.testfire.net'', ''eviltestfire.net'', ''www.testfire.net''}"
proof -
  obtain st where r: "run example_env example_args = Inr st"
    using example_run_returns by blast
  have S: "all_subdomains st = {''api.testfire.net'', ''eviltestfire.net'', ''www.testfire.net''}"
    by (rule example_final(1) [OF r])
  have ok: "scheduler_ok example_env (all_subdomains st)"
    by (rule example_scheduler_ok(1)) (simp add: S)
  have c: "card (all_subdomains st) = 3"
    by (simp add: S)
  note fact = one_record_per_candidate [OF r ok]
  from fact have d: "distinct (map fst (subdomain_data st))"
    by (rule conjunct1)
  from fact have k: "set (map fst (subdomain_data st)) = all_subdomains st"
    by blast
  from fact have l: "length (subdomain_data st) = card (all_subdomains st)"
    by blast
  from fact have "json_report_keys (snd (files st ! 0)) = map fst (subdomain_data st)"
    and "set (json_report_keys (snd (files st ! 0))) = set (text_report_lines (snd (files st ! 2)))"
    by blast+
  then have t: "set (text_report_lines (snd (files st ! 2))) = all_subdomains st"
    using k by simp
  have k': "set (map fst (subdomain_data st))
              = {''api.testfire.net'', ''eviltestfire.net'', ''www.testfire.net''}"
    by (simp only: k S)
  have l': "length (subdomain_data st) = 3"
    by (simp only: l c)
  have t': "set (text_report_lines (snd (files st ! 2)))
              = {''api.testfire.net'', ''eviltestfire.net'', ''www.testfire.net''}"
    by (simp only: t S)
  show ?thesis
    by (rule exI [of _ st]) (intro conjI r ok d k' l' t')
qed

lemma in_tagged:
  "(k, r) \<in> set (map (\<lambda>s. (s, f s)) xs) \<longleftrightarrow> k \<in> set xs \<and> r = f k"
  by auto

lemma keys_tagged: "map fst (map (\<lambda>s. (s, f s)) xs) = xs"
  by (induction xs) simp_all

text \<open>
  Claim C3. After a run the keys of the active map are candidates of the full candidate
  set, and every record of the active map has an HTTP status that is present and strictly
  below 600 (and is the record that the full map holds for the same candidate).
\<close>

theorem active_subset_and_status_below_600:
  assumes "run env a = Inr st" and "scheduler_ok env (all_subdomains st)"
  shows "fst ` set (active_subdomains st) \<subseteq> all_subdomains st
     \<and> (\<forall>(k, r) \<in> set (active_subdomains st).
           (\<exists>c. http_status r = Some c \<and> c < 600) \<and> map_of (subdomain_data st) k = Some r)"
proof -
  let ?order = "as_completed env (set_iter env (all_subdomains st))"
  let ?live = "\<lambda>s. status_and_below_600 (http_status (probe_record_of env s))"
  note fin = run_final [OF assms]
  have "fst ` set (active_subdomains st) = set (map fst (active_subdomains st))"
    by simp
  also have "\<dots> = set (filter ?live ?order)"
    by (simp only: fin(5) keys_tagged)
  also have "\<dots> \<subseteq> all_subdomains st"
    using fin(1) by simp
  finally have sub: "fst ` set (active_subdomains st) \<subseteq> all_subdomains st" .
  have each: "(\<exists>c. http_status r = Some c \<and> c < 600) \<and> map_of (subdomain_data st) k = Some r"
    if "(k, r) \<in> set (active_subdomains st)" for k r
  proof -
    from that have "k \<in> set (filter ?live ?order) \<and> r = probe_record_of env k"
      by (simp only: fin(5) in_tagged)
    then have k: "k \<in> set ?order" and r: "r = probe_record_of env k"
      and a: "status_and_below_600 (http_status r)"
      by simp_all
    from a have "\<exists>c. http_status r = Some c \<and> c < 600"
      by (cases "http_status r") (simp_all add: status_and_below_600_def)
    moreover have "map_of (subdomain_data st) k = Some r"
      using k r by (simp add: fin(4) map_of_probe_records)
    ultimately show ?thesis by simp
  qed
  show ?thesis
  proof (rule conjI [OF sub], rule ballI)
    fix x
    assume x: "x \<in> set (active_subdomains st)"
    obtain k r where kr: "x = (k, r)" by (rule prod.exhaust)
    from each [of k r] x kr
    show "case x of (k, r) \<Rightarrow>
            (\<exists>c. http_status r = Some c \<and> c < 600) \<and> map_of (subdomain_data st) k = Some r"
      by simp
  qed
qed

theorem active_subset_and_status_below_600_witness:
  "\<exists>st. run example_env example_args = Inr st
      \<and> scheduler_ok example_env (all_subdomains st)
      \<and> (''www.testfire.net'', \<lparr>ip = Some ''10.0.0.1'', cname = None, http_status = Some 200\<rparr>)
           \<in> set (active_subdomains st)
      \<and> fst ` set (active_subdomains st) \<subseteq> all_subdomains st
      \<and> (\<exists>c. Some (200::int) = Some c \<and> c < 600)
      \<and> map_of (subdomain_data st) ''www.testfire.net''
          = Some \<lparr>ip = Some ''10.0.0.1'', cname = None, http_status = Some 200\<rparr>"
proof -
  obtain st where r: "run example_env example_args = Inr st"
    using example_run_returns by blast
  have ok: "scheduler_ok example_env (all_subdomains st)"
    by (rule example_scheduler_ok(1)) (simp add: example_final(1) [OF r])
  let ?rec = "\<lparr>ip = Some ''10.0.0.1'', cname = None, http_status = Some (200::int)\<rparr>"
  have m: "(''www.testfire.net'', ?rec) \<in> set (active_subdomains st)"
    by (simp add: example_final(3) [OF r])
  note fact = active_subset_and_status_below_600 [OF r ok]
  from fact have s: "fst ` set (active_subdomains st) \<subseteq> all_subdomains st"
    by (rule conjunct1)
  from fact have "\<forall>(k, r) \<in> set (active_subdomains st).
           (\<exists>c. http_status r = Some c \<and> c < 600) \<and> map_of (subdomain_data st) k = Some r"
    by (rule conjunct2)
  from bspec [OF this m]
  have e: "\<exists>c. Some (200::int) = Some c \<and> c < 600"
    and f: "map_of (subdomain_data st) ''www.testfire.net'' = Some ?rec"
    by simp_all
  show ?thesis
    by (rule exI [of _ st]) (intro conjI r ok m s e f)
qed

lemma probe_record_of_resolved:
  assumes "gethostbyname env sub = Inr addr" and "addr \<noteq> []"
  shows "ip (probe_record_of env sub) = Some addr"
    and "cname (probe_record_of env sub) =
           (case gethostbyname_ex env sub of
              Inl e \<Rightarrow> None
            | Inr (hostname, aliases, addrs) \<Rightarrow> Some hostname)"
    and "http_status (probe_record_of env sub) =
           (case requests_get env (http_url sub) 5 of
              Inl e \<Rightarrow> None
            | Inr status_code \<Rightarrow> Some status_code)"
  using assms by (simp_all add: probe_record_of_def)

lemma probe_record_of_unresolved:
  assumes "gethostbyname env sub = Inl e"
  shows "probe_record_of env sub = \<lparr>ip = None, cname = None, http_status = None\<rparr>"
  using assms by (simp add: probe_record_of_def)

lemma requests_get_range:
  "requests_get env url t = Inr c \<Longrightarrow> 100 \<le> c \<and> c \<le> 999"
  by (auto simp: requests_get_def split: sum.splits if_splits)

lemma http_url_inj: "http_url x = http_url y \<longleftrightarrow> x = y"
  by (simp add: http_url_def)

text \<open>
  Claim C4. For every candidate of a run whose DNS resolution succeeded and whose HTTP check
  (the request for its URL was made) returned a status code: when the code is below 600,
  the record of the candidate, with the address and the code, is in the active map, and it is
  the record that the full map holds. The test of the source, \<open>status and status < 600\<close>,
  would let the code 0 fall through, but no code below 100 reaches the program.
\<close>

theorem status_below_600_is_active:
  assumes "run env a = Inr st" and "scheduler_ok env (all_subdomains st)"
    and "sub \<in> all_subdomains st"
    and "gethostbyname env sub = Inr addr"
    and "http_url sub \<in> set (http_requests st)"
    and "requests_get env (http_url sub) 5 = Inr c" and "c < 600"
  shows "\<exists>r. map_of (active_subdomains st) sub = Some r
           \<and> map_of (subdomain_data st) sub = Some r
           \<and> ip r = Some addr \<and> http_status r = Some c"
proof -
  let ?order = "as_completed env (set_iter env (all_subdomains st))"
  let ?live = "\<lambda>s. status_and_below_600 (http_status (probe_record_of env s))"
  let ?asked = "\<lambda>s. ip (probe_record_of env s) \<noteq> None"
  let ?r = "probe_record_of env sub"
  note fin = run_final [OF assms(1,2)]
  have "set (http_requests st) = http_url ` set (filter ?asked ?order)"
    by (simp only: fin(6) set_map)
  with assms(5) have "sub \<in> set (filter ?asked ?order)"
    by (auto simp: http_url_inj)
  then have asked: "ip ?r \<noteq> None"
    by simp
  have n: "addr \<noteq> []"
  proof
    assume "addr = []"
    then have "ip ?r = None"
      using assms(4) by (simp add: probe_record_of_def)
    with asked show False by simp
  qed
  have i: "ip ?r = Some addr"
    by (rule probe_record_of_resolved(1) [OF assms(4) n])
  have h: "http_status ?r = Some c"
    using probe_record_of_resolved(3) [OF assms(4) n] assms(6) by simp
  have "100 \<le> c"
    using requests_get_range [OF assms(6)] by simp
  then have live: "?live sub"
    using assms(7) by (simp add: h status_and_below_600_def)
  have o: "sub \<in> set ?order"
    using assms(3) fin(1) by simp
  have "sub \<in> set (filter ?live ?order)"
    using o live by simp
  then have act: "map_of (active_subdomains st) sub = Some ?r"
    by (simp only: fin(5) map_of_probe_records if_True)
  have dat: "map_of (subdomain_data st) sub = Some ?r"
    using o by (simp only: fin(4) map_of_probe_records if_True)
  show ?thesis
    by (rule exI [of _ ?r]) (intro conjI act dat i h)
qed

theorem status_below_600_is_active_witness:
  "\<exists>st. run example_env example_args = Inr st
      \<and> scheduler_ok example_env (all_subdomains st)
      \<and> ''www.testfire.net'' \<in> all_subdomains st
      \<and> gethostbyname example_env ''www.testfire.net'' = Inr ''10.0.0.1''
      \<and> http_url ''www.testfire.net'' \<in> set (http_requests st)
      \<and> requests_get example_env (http_url ''www.testfire.net'') 5 = Inr 200
      \<and> (\<exists>r. map_of (active_subdomains st) ''www.testfire.net'' = Some r
             \<and> map_of (subdomain_data st) ''www.testfire.net'' = Some r
             \<and> ip r = Some ''10.0.0.1'' \<and> http_status r = Some 200)"
proof -
  obtain st where r: "run example_env example_args = Inr st"
    using example_run_returns by blast
  have ok: "scheduler_ok example_env (all_subdomains st)"
    by (rule example_scheduler_ok(1)) (simp add: example_final(1) [OF r])
  have m: "''www.testfire.net'' \<in> all_subdomains st"
    by (simp add: example_final(1) [OF r])
  have g: "gethostbyname example_env ''www.testfire.net'' = Inr ''10.0.0.1''"
    by (simp add: example_env_def)
  have u: "http_url ''www.testfire.net'' \<in> set (http_requests st)"
    by (simp add: example_final(4) [OF r] http_url_def)
  have q: "requests_get example_env (http_url ''www.testfire.net'') 5 = Inr 200"
    by (simp add: requests_get_def example_env_def http_url_def)
  have b: "(200::int) < 600"
    by simp
  note fact = status_below_600_is_active [OF r ok m g u q b]
  show ?thesis
    by (rule exI [of _ st]) (intro conjI r ok m g u q fact)
qed

text \<open>
  Claim C5. For every candidate of a run: when the resolver raises, the full map holds the
  candidate with address, canonical name and HTTP status all absent, no HTTP request is made
  for it, and it is not in the active map; when the resolver returns an address (a
  non-empty string) and the lookup of the canonical name raises, the record of the candidate
  keeps the address and has no canonical name.
\<close>

theorem dns_failure_is_recorded_absent:
  assumes "run env a = Inr st" and "scheduler_ok env (all_subdomains st)"
    and "sub \<in> all_subdomains st"
  shows "(\<forall>e. gethostbyname env sub = Inl e \<longrightarrow>
            map_of (subdomain_data st) sub = Some \<lparr>ip = None, cname = None, http_status = None\<rparr>
            \<and> http_url sub \<notin> set (http_requests st)
            \<and> sub \<notin> fst ` set (active_subdomains st))
     \<and> (\<forall>addr e. gethostbyname env sub = Inr addr \<and> addr \<noteq> []
                   \<and> gethostbyname_ex env sub = Inl e \<longrightarrow>
            (\<exists>status. map_of (subdomain_data st) sub
                        = Some \<lparr>ip = Some addr, cname = None, http_status = status\<rparr>))"
proof -
  let ?order = "as_completed env (set_iter env (all_subdomains st))"
  let ?live = "\<lambda>s. status_and_below_600 (http_status (probe_record_of env s))"
  let ?asked = "\<lambda>s. ip (probe_record_of env s) \<noteq> None"
  note fin = run_final [OF assms(1,2)]
  have o: "sub \<in> set ?order"
    using assms(3) fin(1) by simp
  have dat: "map_of (subdomain_data st) sub = Some (probe_record_of env sub)"
    using o by (simp only: fin(4) map_of_probe_records if_True)
  have failed: "map_of (subdomain_data st) sub = Some \<lparr>ip = None, cname = None, http_status = None\<rparr>
            \<and> http_url sub \<notin> set (http_requests st)
            \<and> sub \<notin> fst ` set (active_subdomains st)"
    if g: "gethostbyname env sub = Inl e" for e
  proof -
    have rec: "probe_record_of env sub = \<lparr>ip = None, cname = None, http_status = None\<rparr>"
      by (rule probe_record_of_unresolved [OF g])
    have d: "map_of (subdomain_data st) sub = Some \<lparr>ip = None, cname = None, http_status = None\<rparr>"
      using dat rec by simp
    have "set (http_requests st) = http_url ` set (filter ?asked ?order)"
      by (simp only: fin(6) set_map)
    moreover have "sub \<notin> set (filter ?asked ?order)"
      by (simp add: rec)
    ultimately have h: "http_url sub \<notin> set (http_requests st)"
      by (auto simp: http_url_inj)
    have "fst ` set (active_subdomains st) = set (map fst (active_subdomains st))"
      by simp
    also have "\<dots> = set (filter ?live ?order)"
      by (simp only: fin(5) keys_tagged)
    finally have "fst ` set (active_subdomains st) = set (filter ?live ?order)" .
    moreover have "sub \<notin> set (filter ?live ?order)"
      by (simp add: rec status_and_below_600_def)
    ultimately have n: "sub \<notin> fst ` set (active_subdomains st)"
      by simp
    from d h n show ?thesis by simp
  qed
  have resolved: "\<exists>status. map_of (subdomain_data st) sub
                        = Some \<lparr>ip = Some addr, cname = None, http_status = status\<rparr>"
    if g: "gethostbyname env sub = Inr addr" and n: "addr \<noteq> []"
      and x: "gethostbyname_ex env sub = Inl e" for addr e
  proof -
    have "probe_record_of env sub =
            \<lparr>ip = Some addr, cname = None,
             http_status = (case requests_get env (http_url sub) 5 of
                              Inl e \<Rightarrow> None
                            | Inr status_code \<Rightarrow> Some status_code)\<rparr>"
      using g n x by (simp add: probe_record_of_def)
    then show ?thesis using dat by simp
  qed
  from failed resolved show ?thesis by blast
qed

theorem dns_failure_is_recorded_absent_witness:
  "\<exists>st. run example_env example_args = Inr st
      \<and> scheduler_ok example_env (all_subdomains st)
      \<and> ''eviltestfire.net'' \<in> all_subdomains st
      \<and> gethostbyname example_env ''eviltestfire.net'' = Inl (Exception ''Name or service not known'')
      \<and> map_of (subdomain_data st) ''eviltestfire.net''
          = Some \<lparr>ip = None, cname = None, http_status = None\<rparr>
      \<and> http_url ''eviltestfire.net'' \<notin> set (http_requests st)
      \<and> ''eviltestfire.net'' \<notin> fst ` set (active_subdomains st)
      \<and> ''www.testfire.net'' \<in> all_subdomains st
      \<and> gethostbyname example_env ''www.testfire.net'' = Inr ''10.0.0.1''
      \<and> gethostbyname_ex example_env ''www.testfire.net'' = Inl (Exception ''Unknown host'')
      \<and> (\<exists>status. map_of (subdomain_data st) ''www.testfire.net''
                      = Some \<lparr>ip = Some ''10.0.0.1'', cname = None, http_status = status\<rparr>)"
proof -
  obtain st where r: "run example_env example_args = Inr st"
    using example_run_returns by blast
  have ok: "scheduler_ok example_env (all_subdomains st)"
    by (rule example_scheduler_ok(1)) (simp add: example_final(1) [OF r])
  have m1: "''eviltestfire.net'' \<in> all_subdomains st"
    and m2: "''www.testfire.net'' \<in> all_subdomains st"
    by (simp_all add: example_final(1) [OF r])
  have g1: "gethostbyname example_env ''eviltestfire.net''
              = Inl (Exception ''Name or service not known'')"
    by (simp add: example_env_def)
  have g2: "gethostbyname example_env ''www.testfire.net'' = Inr ''10.0.0.1''"
    by (simp add: example_env_def)
  have x2: "gethostbyname_ex example_env ''www.testfire.net'' = Inl (Exception ''Unknown host'')"
    by (simp add: example_env_def)
  have n2: "''10.0.0.1'' \<noteq> []" by simp
  from dns_failure_is_recorded_absent [OF r ok m1] g1
  have c1: "map_of (subdomain_data st) ''eviltestfire.net''
              = Some \<lparr>ip = None, cname = None, http_status = None\<rparr>"
    and c2: "http_url ''eviltestfire.net'' \<notin> set (http_requests st)"
    and c3: "''eviltestfire.net'' \<notin> fst ` set (active_subdomains st)"
    by blast+
  from dns_failure_is_recorded_absent [OF r ok m2] g2 n2 x2
  have c4: "\<exists>status. map_of (subdomain_data st) ''www.testfire.net''
                      = Some \<lparr>ip = Some ''10.0.0.1'', cname = None, http_status = status\<rparr>"
    by blast
  show ?thesis
    by (rule exI [of _ st]) (intro conjI r ok m1 g1 c1 c2 c3 m2 g2 x2 c4)
qed


lemma example_timeout_aggregate_value:
  "case aggregate example_env_timeout example_args of
     Inl e \<Rightarrow> False
   | Inr st1 \<Rightarrow> all_subdomains st1 = {} \<and> available_tools st1 = [''subfinder'']"
  by code_simp

lemma example_timeout_aggregate_returns:
  "\<exists>st1. aggregate example_env_timeout example_args = Inr st1"
  using example_timeout_aggregate_value
  by (cases "aggregate example_env_timeout example_args") simp_all

lemma example_timeout_aggregated:
  assumes "aggregate example_env_timeout example_args = Inr st1"
  shows "all_subdomains st1 = {}" and "available_tools st1 = [''subfinder'']"
  using example_timeout_aggregate_value assms by simp_all

lemma example_timeout_tools_loop_value:
  "case tools_loop example_env_timeout ''testfire.net'' (tools ''testfire.net'')
          (init_state\<lparr>made_dirs := [[]]\<rparr>) of
     Inl e \<Rightarrow> False
   | Inr st1 \<Rightarrow> all_subdomains st1 = {}"
  by code_simp

text \<open>
  Claim C9, as stated: when the filtered candidate set is empty, the run completes and writes
  the four reports. The source creates the output directory and opens the four files with
  no handler around them, so an error of the file system ends the run: with the empty string
  as output directory (which the argument parser accepts) \<open>os.makedirs\<close> raises
  \<open>FileNotFoundError\<close> before any tool runs, in a world whose tools yield no candidate.
\<close>

theorem empty_candidate_set_run_raises_counterexample:
  "domain (example_args\<lparr>output_dir := []\<rparr>) \<in> set domain_choices
   \<and> (\<exists>st1. tools_loop example_env_timeout ''testfire.net'' (tools ''testfire.net'')
                (init_state\<lparr>made_dirs := [[]]\<rparr>) = Inr st1
           \<and> Set.filter (\<lambda>s. str_endswith s ''testfire.net'') (all_subdomains st1) = {})
   \<and> main example_env_timeout (example_args\<lparr>output_dir := []\<rparr>)
        = Raised (Exception ''FileNotFoundError'')"
proof -
  have d: "domain (example_args\<lparr>output_dir := []\<rparr>) \<in> set domain_choices"
    by (simp add: example_args_def domain_choices_def)
  obtain st1 where t: "tools_loop example_env_timeout ''testfire.net'' (tools ''testfire.net'')
                (init_state\<lparr>made_dirs := [[]]\<rparr>) = Inr st1"
    and e: "all_subdomains st1 = {}"
    using example_timeout_tools_loop_value
    by (cases "tools_loop example_env_timeout ''testfire.net'' (tools ''testfire.net'')
                (init_state\<lparr>made_dirs := [[]]\<rparr>)") simp_all
  have f: "Set.filter (\<lambda>s. str_endswith s ''testfire.net'') (all_subdomains st1) = {}"
    by (simp add: e)
  have x: "\<exists>st1. tools_loop example_env_timeout ''testfire.net'' (tools ''testfire.net'')
                (init_state\<lparr>made_dirs := [[]]\<rparr>) = Inr st1
           \<and> Set.filter (\<lambda>s. str_endswith s ''testfire.net'') (all_subdomains st1) = {}"
    by (rule exI [of _ st1]) (intro conjI t f)
  have m: "main example_env_timeout (example_args\<lparr>output_dir := []\<rparr>)
        = Raised (Exception ''FileNotFoundError'')"
    by (simp add: main_def run_def aggregate_def os_makedirs_def example_args_def
        domain_choices_def)
  show ?thesis
    by (intro conjI d x m)
qed

text \<open>
  Claim C9, amended: when the filter leaves no candidate (no tool available, or no line
  that ends with the domain) and the file system raises no error (the output directory is
  created, so the aggregation returns, and each of the four report files is written),
  \<open>main\<close> returns, with the output directory created and the four reports written: both
  JSON reports carry the statistics total 0, activos 0, nivel2 0 and nivel3 0 and an empty
  record map, both text reports have no line, and the maps of the final state are empty.
\<close>

theorem empty_candidate_set_run_completes:
  assumes "domain a \<in> set domain_choices"
    and "aggregate env a = Inr st1"
    and "Set.filter (\<lambda>s. str_endswith s (domain a)) (all_subdomains st1) = {}"
    and "scheduler_ok env {}"
    and "write_error env (base_completos (output_dir a) (domain a) (now_strftime env) @ ''.json'')
           = None"
    and "write_error env (base_activos (output_dir a) (domain a) (now_strftime env) @ ''.json'')
           = None"
    and "write_error env (base_completos (output_dir a) (domain a) (now_strftime env) @ ''.txt'')
           = None"
    and "write_error env (base_activos (output_dir a) (domain a) (now_strftime env) @ ''.txt'')
           = None"
  shows "\<exists>st. main env a = Returned st
           \<and> all_subdomains st = {} \<and> subdomain_data st = [] \<and> active_subdomains st = []
           \<and> made_dirs st = [output_dir a]
           \<and> files st =
               [(base_completos (output_dir a) (domain a) (now_strftime env) @ ''.json'',
                   Json_dump (JObj
                     [(''metadata'',
                         JObj [(''timestamp'', JStr (now_strftime env)),
                               (''dominio'', JStr (domain a)),
                               (''herramientas'', JArr (map JStr (available_tools st1))),
                               (''estadisticas'',
                                  JObj [(''total'', JInt 0), (''activos'', JInt 0),
                                        (''nivel2'', JInt 0), (''nivel3'', JInt 0)])]),
                      (''subdominios'', JObj [])])),
                (base_activos (output_dir a) (domain a) (now_strftime env) @ ''.json'',
                   Json_dump (JObj
                     [(''metadata'',
                         JObj [(''timestamp'', JStr (now_strftime env)),
                               (''dominio'', JStr (domain a)),
                               (''herramientas'', JArr (map JStr (available_tools st1))),
                               (''estadisticas'',
                                  JObj [(''total'', JInt 0), (''activos'', JInt 0),
                                        (''nivel2'', JInt 0), (''nivel3'', JInt 0)])]),
                      (''subdominios'', JObj [])])),
                (base_completos (output_dir a) (domain a) (now_strftime env) @ ''.txt'',
                   Text_writes []),
                (base_activos (output_dir a) (domain a) (now_strftime env) @ ''.txt'',
                   Text_writes [])]"
proof -
  let ?st2 = "limpieza (domain a) st1"
  let ?fs = "[(base_completos (output_dir a) (domain a) (now_strftime env) @ ''.json'',
                   Json_dump (JObj
                     [(''metadata'',
                         JObj [(''timestamp'', JStr (now_strftime env)),
                               (''dominio'', JStr (domain a)),
                               (''herramientas'', JArr (map JStr (available_tools st1))),
                               (''estadisticas'',
                                  JObj [(''total'', JInt 0), (''activos'', JInt 0),
                                        (''nivel2'', JInt 0), (''nivel3'', JInt 0)])]),
                      (''subdominios'', JObj [])])),
                (base_activos (output_dir a) (domain a) (now_strftime env) @ ''.json'',
                   Json_dump (JObj
                     [(''metadata'',
                         JObj [(''timestamp'', JStr (now_strftime env)),
                               (''dominio'', JStr (domain a)),
                               (''herramientas'', JArr (map JStr (available_tools st1))),
                               (''estadisticas'',
                                  JObj [(''total'', JInt 0), (''activos'', JInt 0),
                                        (''nivel2'', JInt 0), (''nivel3'', JInt 0)])]),
                      (''subdominios'', JObj [])])),
                (base_completos (output_dir a) (domain a) (now_strftime env) @ ''.txt'',
                   Text_writes []),
                (base_activos (output_dir a) (domain a) (now_strftime env) @ ''.txt'',
                   Text_writes [])]"
  have S: "all_subdomains ?st2 = {}"
    using assms(3) by (simp add: limpieza_fields)
  from assms(4) have "set (set_iter env {}) = {}"
    and ac0: "set (as_completed env (set_iter env {})) = {}"
    unfolding scheduler_ok_def by blast+
  then have it: "set_iter env {} = []"
    by simp
  have ac: "as_completed env [] = []"
    using ac0 unfolding it by simp
  have probe: "probe_loop env (as_completed env (set_iter env (all_subdomains ?st2))) ?st2 = Inr ?st2"
    by (simp add: S it ac)
  note agg = aggregate_frame [OF assms(2)]
  have e2: "subdomain_data ?st2 = []" and e3: "active_subdomains ?st2 = []"
    and e4: "files ?st2 = []" and e5: "available_tools ?st2 = available_tools st1"
    and e6: "made_dirs ?st2 = [output_dir a]"
    by (simp_all add: limpieza_fields agg(1,2,4,5))
  have ok: "\<forall>path \<in> fst ` set ?fs. write_error env path = None"
    using assms(5-8) by simp
  have wf: "write_files env ?fs ?st2 = Inr (?st2\<lparr>files := files ?st2 @ ?fs\<rparr>)"
    by (rule write_files_ok [OF ok])
  obtain lg where w: "write_reports env (output_dir a) (domain a) (now_strftime env) ?st2
             = Inr (?st2\<lparr>files := ?fs, logged := lg\<rparr>)"
  proof -
    have "write_reports env (output_dir a) (domain a) (now_strftime env) ?st2
            = Inr (?st2\<lparr>files := ?fs,
                        logged := logged ?st2 @
                          [(INFO, Reportes_generados (output_dir a)),
                           (INFO, Resumen 0 0 0 0)]\<rparr>)"
      unfolding write_reports_def Let_def S it e2 e3 e5
      by (simp add: extract_subdomains_level_def json_dict_def wf e4
          del: write_files.simps)
    then show ?thesis using that by blast
  qed
  let ?st = "?st2\<lparr>files := ?fs, logged := lg\<rparr>"
  have r: "run env a = Inr ?st"
    by (simp add: run_def assms(2) probe w Let_def)
  have m: "main env a = Returned ?st"
    using assms(1) by (simp add: main_def r)
  have f1: "all_subdomains ?st = {}"
    by (simp add: S)
  have f2: "subdomain_data ?st = []"
    by (simp add: e2)
  have f3: "active_subdomains ?st = []"
    by (simp add: e3)
  have f4: "made_dirs ?st = [output_dir a]"
    by (simp add: e6)
  have f5: "files ?st = ?fs"
    by simp
  show ?thesis
    by (rule exI [of _ ?st]) (intro conjI m f1 f2 f3 f4 f5)
qed

theorem empty_candidate_set_run_completes_witness:
  "domain example_args \<in> set domain_choices
   \<and> scheduler_ok example_env_timeout {}
   \<and> (\<exists>st1. aggregate example_env_timeout example_args = Inr st1
          \<and> Set.filter (\<lambda>s. str_endswith s (domain example_args)) (all_subdomains st1) = {})
   \<and> (\<exists>st. main example_env_timeout example_args = Returned st
          \<and> all_subdomains st = {} \<and> subdomain_data st = [] \<and> active_subdomains st = []
          \<and> made_dirs st = [''output'']
          \<and> files st =
               [(''output/subdominios_completos_testfire.net_20240101_120000.json'',
                   Json_dump (JObj
                     [(''metadata'',
                         JObj [(''timestamp'', JStr ''20240101_120000''),
                               (''dominio'', JStr ''testfire.net''),
                               (''herramientas'', JArr [JStr ''subfinder'']),
                               (''estadisticas'',
                                  JObj [(''total'', JInt 0), (''activos'', JInt 0),
                                        (''nivel2'', JInt 0), (''nivel3'', JInt 0)])]),
                      (''subdominios'', JObj [])])),
                (''output/subdominios_activos_testfire.net_20240101_120000.json'',
                   Json_dump (JObj
                     [(''metadata'',
                         JObj [(''timestamp'', JStr ''20240101_120000''),
                               (''dominio'', JStr ''testfire.net''),
                               (''herramientas'', JArr [JStr ''subfinder'']),
                               (''estadisticas'',
                                  JObj [(''total'', JInt 0), (''activos'', JInt 0),
                                        (''nivel2'', JInt 0), (''nivel3'', JInt 0)])]),
                      (''subdominios'', JObj [])])),
                (''output/subdominios_completos_testfire.net_20240101_120000.txt'', Text_writes []),
                (''output/subdominios_activos_testfire.net_20240101_120000.txt'', Text_writes [])])"
proof -
  have d: "domain example_args \<in> set domain_choices"
    by (simp add: example_args_def domain_choices_def)
  have ok: "scheduler_ok example_env_timeout {}"
    by (rule example_scheduler_ok(2)) simp
  obtain st1 where a: "aggregate example_env_timeout example_args = Inr st1"
    using example_timeout_aggregate_returns by blast
  note agg = example_timeout_aggregated [OF a]
  have e: "Set.filter (\<lambda>s. str_endswith s (domain example_args)) (all_subdomains st1) = {}"
    by (simp add: agg(1))
  have w: "write_error example_env_timeout p = None" for p
    by (simp add: example_env_timeout_def example_env_def)
  have paths:
    "base_completos (output_dir example_args) (domain example_args) (now_strftime example_env_timeout)
       = ''output/subdominios_completos_testfire.net_20240101_120000''"
    "base_activos (output_dir example_args) (domain example_args) (now_strftime example_env_timeout)
       = ''output/subdominios_activos_testfire.net_20240101_120000''"
    by (simp_all add: base_completos_def base_activos_def path_join_def str_endswith_def
        example_args_def example_env_timeout_def example_env_def)
  have vals: "now_strftime example_env_timeout = ''20240101_120000''"
    "domain example_args = ''testfire.net''" "output_dir example_args = ''output''"
    by (simp_all add: example_args_def example_env_timeout_def example_env_def)
  from empty_candidate_set_run_completes [OF d a e ok w w w w]
  have fin: "\<exists>st. main example_env_timeout example_args = Returned st
          \<and> all_subdomains st = {} \<and> subdomain_data st = [] \<and> active_subdomains st = []
          \<and> made_dirs st = [''output'']
          \<and> files st =
               [(''output/subdominios_completos_testfire.net_20240101_120000.json'',
                   Json_dump (JObj
                     [(''metadata'',
                         JObj [(''timestamp'', JStr ''20240101_120000''),
                               (''dominio'', JStr ''testfire.net''),
                               (''herramientas'', JArr [JStr ''subfinder'']),
                               (''estadisticas'',
                                  JObj [(''total'', JInt 0), (''activos'', JInt 0),
                                        (''nivel2'', JInt 0), (''nivel3'', JInt 0)])]),
                      (''subdominios'', JObj [])])),
                (''output/subdominios_activos_testfire.net_20240101_120000.json'',
                   Json_dump (JObj
                     [(''metadata'',
                         JObj [(''timestamp'', JStr ''20240101_120000''),
                               (''dominio'', JStr ''testfire.net''),
                               (''herramientas'', JArr [JStr ''subfinder'']),
                               (''estadisticas'',
                                  JObj [(''total'', JInt 0), (''activos'', JInt 0),
                                        (''nivel2'', JInt 0), (''nivel3'', JInt 0)])]),
                      (''subdominios'', JObj [])])),
                (''output/subdominios_completos_testfire.net_20240101_120000.txt'', Text_writes []),
                (''output/subdominios_activos_testfire.net_20240101_120000.txt'', Text_writes [])]"
    unfolding paths unfolding vals agg(2) by simp
  have ex: "\<exists>st1. aggregate example_env_timeout example_args = Inr st1
          \<and> Set.filter (\<lambda>s. str_endswith s (domain example_args)) (all_subdomains st1) = {}"
    by (rule exI [of _ st1]) (intro conjI a e)
  show ?thesis
    by (intro conjI d ok ex fin)
qed

end
